theory Spec2Isabelle
  imports Complex_Main "HOL-Library.AList" "HOL-Library.Option_ord"
begin

section \<open>Conventions of the embedding\<close>

text \<open>
  The program is Python with numpy. Python floats are modelled by the reals: every
  arithmetic operation is the exact one, and the one non-finite float the tables of the
  program contain, \<^verbatim>\<open>float('inf')\<close>, is a value of its own (\<open>PInf\<close>) with the IEEE
  results written out where the code computes with it. Python ints are \<open>int\<close>.
  A numpy array is a function from its indices to its cells; its shape is carried beside
  it, and the loops of the source only touch indices inside the shape. An in-place update
  of an array returns the updated array.
  Exceptions are values: a function that can raise returns \<open>py_error + 'a\<close>.
  What the embedding leaves out is said where it is left out: the parallel vectors of a
  step have one length (the driver builds them in lockstep), coordinates stay inside the
  int32 range, and the extent of the grid is not zero; the statements below carry these
  as hypotheses.
\<close>

datatype py_error = KeyError | IndexError | AssertionError | ZeroDivisionError | ValueError

datatype pyfloat = Fin real | PInf

section \<open>AQI converter (process\_gas\_to\_aqi.py)\<close>

subsection \<open>US AQI\<close>

text \<open>A breakpoint tier \<^verbatim>\<open>[concentration_low, concentration_high, index_low, index_high]\<close>.\<close>

type_synonym tier = "real \<times> real \<times> real \<times> real"

definition breakpoints_US :: "(string \<times> tier list) list" where
  "breakpoints_US =
    [(''CO'',
       [(0, 4.4, 0, 50),
        (4.5, 9.4, 51, 100),
        (9.5, 12.4, 101, 150),
        (12.5, 15.4, 151, 200),
        (15.5, 30.4, 201, 300),
        (30.5, 40.4, 301, 400),
        (40.5, 50.4, 401, 500)]),
     (''NO2'',
       [(0, 53, 0, 50),
        (54, 100, 51, 100),
        (101, 360, 101, 150),
        (361, 649, 151, 200),
        (650, 1249, 201, 300),
        (1250, 1649, 301, 400),
        (1650, 2049, 401, 500)]),
     (''PM2.5'',
       [(0, 12.0, 0, 50),
        (12.1, 35.4, 51, 100),
        (35.5, 55.4, 101, 150),
        (55.5, 150.4, 151, 200),
        (150.5, 250.4, 201, 300),
        (250.5, 350.4, 301, 400),
        (350.5, 500.4, 401, 500)])]"

text \<open>
  The \<^verbatim>\<open>for bp in breakpoints[pollutant]\<close> loop: the first tier with
  \<^verbatim>\<open>bp[0] <= concentration <= bp[1]\<close> returns its interpolation; \<open>None\<close> is the loop
  running to its end.
\<close>

fun scan_US :: "tier list \<Rightarrow> real \<Rightarrow> real option" where
  "scan_US [] concentration = None"
| "scan_US ((bp0, bp1, bp2, bp3) # bps) concentration =
     (if bp0 \<le> concentration \<and> concentration \<le> bp1
      then Some (((bp3 - bp2) / (bp1 - bp0)) * (concentration - bp0) + bp2)
      else scan_US bps concentration)"

definition calculate_aqi_for_pollutant_US_AQI :: "real \<Rightarrow> string \<Rightarrow> py_error + real" where
  "calculate_aqi_for_pollutant_US_AQI concentration pollutant =
     (case map_of breakpoints_US pollutant of
        None \<Rightarrow> Inl KeyError
      | Some bps \<Rightarrow>
          (case scan_US bps concentration of
             Some aqi \<Rightarrow> Inr aqi
           | None \<Rightarrow>
               if concentration > fst (snd (last bps)) then Inr 500
               else Inr 0))"

text \<open>The upper bounds and index highs of a table, and the gaps between consecutive tiers.\<close>

definition conc_high :: "tier \<Rightarrow> real" where
  "conc_high bp = fst (snd bp)"

definition conc_low :: "tier \<Rightarrow> real" where
  "conc_low bp = fst bp"

definition index_high :: "tier \<Rightarrow> real" where
  "index_high bp = snd (snd (snd bp))"

fun consecutive :: "'a list \<Rightarrow> ('a \<times> 'a) list" where
  "consecutive (a # b # xs) = (a, b) # consecutive (b # xs)"
| "consecutive xs = []"

subsection \<open>AQIH\<close>

text \<open>The upper bound of an AQIH tier may be \<^verbatim>\<open>float('inf')\<close>.\<close>

type_synonym tier_H = "real \<times> pyfloat \<times> real \<times> real"

definition breakpoints_AQIH :: "(string \<times> tier_H list) list" where
  "breakpoints_AQIH =
    [(''NO2'',
       [(0, Fin 67, 1, 1),
        (67, Fin 134, 1, 2),
        (134, Fin 200, 2, 3),
        (200, Fin 267, 3, 4),
        (267, Fin 334, 4, 5),
        (334, Fin 400, 5, 6),
        (400, Fin 467, 6, 7),
        (467, Fin 534, 7, 8),
        (534, Fin 600, 8, 9),
        (600, PInf, 9, 10)]),
     (''PM2.5'',
       [(0, Fin 11, 1, 1),
        (11, Fin 23, 1, 2),
        (23, Fin 35, 2, 3),
        (35, Fin 53, 3, 4),
        (53, Fin 70, 4, 5),
        (70, Fin 88, 5, 6),
        (88, Fin 106, 6, 7),
        (106, Fin 124, 7, 8),
        (124, Fin 142, 8, 9),
        (142, PInf, 9, 10)])]"

text \<open>\<^verbatim>\<open>concentration < bp[1]\<close> for a finite concentration.\<close>

fun less_pyfloat :: "real \<Rightarrow> pyfloat \<Rightarrow> bool" where
  "less_pyfloat c (Fin h) = (c < h)"
| "less_pyfloat c PInf = True"

text \<open>
  \<^verbatim>\<open>(bp[3] - bp[2]) / (bp[1] - bp[0])\<close>: with \<^verbatim>\<open>bp[1] = inf\<close> the difference
  \<^verbatim>\<open>inf - bp[0]\<close> is \<^verbatim>\<open>inf\<close> and a finite number divided by it is \<^verbatim>\<open>0.0\<close>.
\<close>

fun slope_H :: "real \<Rightarrow> pyfloat \<Rightarrow> real \<Rightarrow> real \<Rightarrow> real" where
  "slope_H bp0 (Fin bp1) bp2 bp3 = (bp3 - bp2) / (bp1 - bp0)"
| "slope_H bp0 PInf bp2 bp3 = 0"

fun scan_AQIH :: "tier_H list \<Rightarrow> real \<Rightarrow> real option" where
  "scan_AQIH [] concentration = None"
| "scan_AQIH ((bp0, bp1, bp2, bp3) # bps) concentration =
     (if bp0 \<le> concentration \<and> less_pyfloat concentration bp1
      then Some (slope_H bp0 bp1 bp2 bp3 * (concentration - bp0) + bp2)
      else scan_AQIH bps concentration)"

text \<open>
  The order of the source: the assertion on \<^verbatim>\<open>'CO'\<close>, the negative concentration, and
  only then the lookup \<^verbatim>\<open>breakpoints[pollutant]\<close>, which raises on an unknown key.
\<close>

definition calculate_aqi_for_pollutant_AQIH :: "real \<Rightarrow> string \<Rightarrow> py_error + real" where
  "calculate_aqi_for_pollutant_AQIH concentration pollutant =
     (if pollutant = ''CO'' then Inl AssertionError
      else if concentration < 0 then Inr 1
      else (case map_of breakpoints_AQIH pollutant of
              None \<Rightarrow> Inl KeyError
            | Some bps \<Rightarrow>
                (case scan_AQIH bps concentration of
                   Some aqi \<Rightarrow> Inr aqi
                 | None \<Rightarrow> Inr 10)))"

section \<open>Grid configuration (config.py)\<close>

text \<open>
  The module constants of \<^verbatim>\<open>config.py\<close>. The file holds one active set (Erstfeld) and
  five more in comments, so the functions below take the configuration as an argument.
\<close>

record config =
  GRID_LEFT :: int
  GRID_RIGHT :: int
  GRID_TOP :: int
  GRID_BOTTOM :: int
  GRID_DIM_X :: int
  GRID_DIM_Y :: int
  GRID_DIM_Z :: int

definition erstfeld :: config where
  "erstfeld = \<lparr>GRID_LEFT = 16850, GRID_RIGHT = 18630, GRID_TOP = 37720, GRID_BOTTOM = 35000,
               GRID_DIM_X = 160, GRID_DIM_Y = 250, GRID_DIM_Z = 50\<rparr>"

section \<open>Python and numpy primitives\<close>

type_synonym array2 = "int \<times> int \<Rightarrow> real"
type_synonym array3 = "int \<times> int \<times> int \<Rightarrow> real"

text \<open>\<^verbatim>\<open>int(x)\<close> of a float, and \<^verbatim>\<open>.astype(np.int32)\<close> inside the int32 range: truncation
  towards zero.\<close>

definition py_int :: "real \<Rightarrow> int" where
  "py_int x = (if 0 \<le> x then \<lfloor>x\<rfloor> else \<lceil>x\<rceil>)"

text \<open>
  The conversion of a SUMO coordinate to a grid index,
  \<^verbatim>\<open>int((x - GRID_LEFT) / cell_dim_x)\<close> with
  \<^verbatim>\<open>cell_dim_x = (GRID_RIGHT - GRID_LEFT) / GRID_DIM_X\<close>, and the same in y.
\<close>

definition cell_dim_x :: "config \<Rightarrow> real" where
  "cell_dim_x cfg = real_of_int (GRID_RIGHT cfg - GRID_LEFT cfg) / real_of_int (GRID_DIM_X cfg)"

definition cell_dim_y :: "config \<Rightarrow> real" where
  "cell_dim_y cfg = real_of_int (GRID_TOP cfg - GRID_BOTTOM cfg) / real_of_int (GRID_DIM_Y cfg)"

definition x_idx_of :: "config \<Rightarrow> real \<Rightarrow> int" where
  "x_idx_of cfg x = py_int ((x - real_of_int (GRID_LEFT cfg)) / cell_dim_x cfg)"

definition y_idx_of :: "config \<Rightarrow> real \<Rightarrow> int" where
  "y_idx_of cfg y = py_int ((y - real_of_int (GRID_BOTTOM cfg)) / cell_dim_y cfg)"

text \<open>\<^verbatim>\<open>range(a, b)\<close> over ints and the index order of nested \<^verbatim>\<open>for\<close> loops.\<close>

definition py_range :: "int \<Rightarrow> int \<Rightarrow> int list" where
  "py_range a b = [a..b - 1]"

definition range2 :: "int \<Rightarrow> int \<Rightarrow> int \<Rightarrow> int \<Rightarrow> (int \<times> int) list" where
  "range2 a b c d = [(x, y). x \<leftarrow> py_range a b, y \<leftarrow> py_range c d]"

definition range3 :: "int \<Rightarrow> int \<Rightarrow> int \<Rightarrow> (int \<times> int \<times> int) list" where
  "range3 x_dim y_dim z_dim =
     [(i, j, k). i \<leftarrow> py_range 0 x_dim, j \<leftarrow> py_range 0 y_dim, k \<leftarrow> py_range 0 z_dim]"

text \<open>A loop whose body may raise: the first error ends it.\<close>

fun foldE :: "('a \<Rightarrow> 's \<Rightarrow> py_error + 's) \<Rightarrow> 'a list \<Rightarrow> 's \<Rightarrow> py_error + 's" where
  "foldE f [] s = Inr s"
| "foldE f (x # xs) s = (case f x s of Inl e \<Rightarrow> Inl e | Inr s' \<Rightarrow> foldE f xs s')"

section \<open>Diffusion solver (emission\_models.py)\<close>

text \<open>
  \<^verbatim>\<open>_process_diffusion\<close>. The arrays are mutated in place; the model passes them on.
  \<open>shape\<close> is \<^verbatim>\<open>old_matrix.shape\<close> and \<open>pshape\<close> is \<^verbatim>\<open>padded.shape\<close>. The three
  loop nests of the source follow each other: the copy into the padded array, the
  bottom face, and the update of every cell from the padded copy and its own value.
  numba's float division raises on a zero divisor.
\<close>

definition diff_change ::
  "array3 \<Rightarrow> real \<Rightarrow> real \<Rightarrow> real \<Rightarrow> int \<times> int \<times> int \<Rightarrow> real" where
  "diff_change padded diff_x diff_y diff_z idx =
     (case idx of (i, j, k) \<Rightarrow>
        diff_x * (padded (i + 2, j + 1, k + 1) + padded (i, j + 1, k + 1)
                  - 2 * padded (i + 1, j + 1, k + 1)) +
        diff_y * (padded (i + 1, j + 2, k + 1) + padded (i + 1, j, k + 1)
                  - 2 * padded (i + 1, j + 1, k + 1)) +
        diff_z * (padded (i + 1, j + 1, k + 2) + padded (i + 1, j + 1, k)
                  - 2 * padded (i + 1, j + 1, k + 1)))"

text \<open>The body of the third loop nest: the update of one cell and its clamp.\<close>

definition diffusion_cell ::
  "array3 \<Rightarrow> real \<Rightarrow> real \<Rightarrow> real \<Rightarrow> real \<Rightarrow> real \<Rightarrow> real \<Rightarrow> real \<Rightarrow>
   int \<times> int \<times> int \<Rightarrow> array3 \<Rightarrow> array3" where
  "diffusion_cell padded diff_x diff_y diff_z loss_rate default_value dt V idx old_matrix =
     (let m = old_matrix(idx :=
                old_matrix idx
                + (dt * V * diff_change padded diff_x diff_y diff_z idx
                   - dt * loss_rate * old_matrix idx))
      in if m idx < default_value * V
         then m(idx := default_value * V)
         else m)"

text \<open>The first two loop nests: the concentrations copied into the padded array, then
  the bottom face set equal to the layer above it.\<close>

definition pad_concentration ::
  "int \<times> int \<times> int \<Rightarrow> int \<times> int \<times> int \<Rightarrow> array3 \<Rightarrow> array3 \<Rightarrow> real \<Rightarrow> array3" where
  "pad_concentration shape pshape old_matrix padded V =
     (case shape of (x_dim, y_dim, z_dim) \<Rightarrow>
      case pshape of (p0, p1, p2) \<Rightarrow>
        let padded1 = fold (\<lambda>(i, j, k) p. p((i + 1, j + 1, k + 1) := old_matrix (i, j, k) / V))
                        (range3 x_dim y_dim z_dim) padded
        in fold (\<lambda>(i, j) p. p((i, j, 0) := p (i, j, 1))) (range2 0 p0 0 p1) padded1)"

definition process_diffusion ::
  "int \<times> int \<times> int \<Rightarrow> int \<times> int \<times> int \<Rightarrow> array3 \<Rightarrow> array3 \<Rightarrow>
   real \<Rightarrow> real \<Rightarrow> real \<Rightarrow> real \<Rightarrow> real \<Rightarrow> real \<Rightarrow> real \<Rightarrow> real \<Rightarrow> py_error + array3" where
  "process_diffusion shape pshape old_matrix padded dx2 dy2 dz2 diffusion loss_rate
     default_value dt V =
     (case shape of (x_dim, y_dim, z_dim) \<Rightarrow>
        if V = 0 \<and> range3 x_dim y_dim z_dim \<noteq> [] then Inl ZeroDivisionError
        else if dx2 = 0 \<or> dy2 = 0 \<or> dz2 = 0 then Inl ZeroDivisionError
        else
          let padded2 = pad_concentration shape pshape old_matrix padded V;
              diff_x = diffusion / dx2;
              diff_y = diffusion / dy2;
              diff_z = diffusion / dz2
          in Inr (fold (diffusion_cell padded2 diff_x diff_y diff_z loss_rate default_value dt V)
                    (range3 x_dim y_dim z_dim) old_matrix))"

text \<open>
  \<^verbatim>\<open>_add_emissions\<close>: the loop over \<^verbatim>\<open>range(len(x_indices))\<close>. The three arrays are
  built from lists of one length; the compiled loop has no bounds check.
\<close>

definition add_emissions ::
  "array3 \<Rightarrow> int list \<Rightarrow> int list \<Rightarrow> real list \<Rightarrow> int \<Rightarrow> int \<Rightarrow> array3" where
  "add_emissions old_matrix x_indices y_indices emissions grid_dim_x grid_dim_y =
     fold (\<lambda>i m.
             let x_idx = x_indices ! i;
                 y_idx = y_indices ! i
             in if 0 \<le> x_idx \<and> x_idx < grid_dim_x \<and> 0 \<le> y_idx \<and> y_idx < grid_dim_y
                then m((x_idx, y_idx, 0) := m (x_idx, y_idx, 0) + emissions ! i)
                else m)
          [0..<length x_indices] old_matrix"

text \<open>
  \<^verbatim>\<open>process_gas_step\<close>. \<open>old_matrix\<close> has the shape
  \<^verbatim>\<open>(GRID_DIM_X, GRID_DIM_Y, GRID_DIM_Z)\<close> the driver allocates it with, and the module's
  preallocated padded array has that shape plus two, refilled with \<open>default_value\<close>.
\<close>

definition process_gas_step ::
  "config \<Rightarrow> array3 \<Rightarrow> real list \<Rightarrow> real list \<Rightarrow> real list \<Rightarrow> real \<Rightarrow> real \<Rightarrow> real \<Rightarrow>
   real \<Rightarrow> real \<Rightarrow> real \<Rightarrow> real \<Rightarrow> py_error + array3" where
  "process_gas_step cfg old_matrix x_vec y_vec emission_vec cell_len_x_m cell_len_y_m cell_len_z_m
     default_value diffusion loss_rate dt =
     (let V = cell_len_x_m * cell_len_y_m * cell_len_z_m
      in if GRID_DIM_X cfg = 0 \<or> GRID_DIM_Y cfg = 0 then Inl ZeroDivisionError
         else
           let old_matrix1 =
                 (if length x_vec > 0
                  then let x_indices = map (x_idx_of cfg) x_vec;
                           y_indices = map (y_idx_of cfg) y_vec
                       in add_emissions old_matrix x_indices y_indices emission_vec
                            (GRID_DIM_X cfg) (GRID_DIM_Y cfg)
                  else old_matrix);
               dx2 = cell_len_x_m * cell_len_x_m;
               dy2 = cell_len_y_m * cell_len_y_m;
               dz2 = cell_len_z_m * cell_len_z_m;
               padded_concentration = (\<lambda>_. default_value)
           in process_diffusion (GRID_DIM_X cfg, GRID_DIM_Y cfg, GRID_DIM_Z cfg)
                (GRID_DIM_X cfg + 2, GRID_DIM_Y cfg + 2, GRID_DIM_Z cfg + 2)
                old_matrix1 padded_concentration dx2 dy2 dz2 diffusion loss_rate default_value dt V)"

text \<open>
  For the statements about a step: a grid whose extent and dimensions are not degenerate
  (the index conversion divides by the cell extents, and the emissions are written to
  z-index 0), the indices inside the grid, the constant array the driver starts from, and
  the mass the sources of one step put into a cell, which is the sum of the emissions
  whose converted indices are that cell's, at z-index 0.
\<close>

definition valid_grid :: "config \<Rightarrow> bool" where
  "valid_grid cfg \<longleftrightarrow>
     GRID_LEFT cfg < GRID_RIGHT cfg \<and> GRID_BOTTOM cfg < GRID_TOP cfg
     \<and> 0 < GRID_DIM_X cfg \<and> 0 < GRID_DIM_Y cfg \<and> 0 < GRID_DIM_Z cfg"

definition in_grid3 :: "config \<Rightarrow> int \<times> int \<times> int \<Rightarrow> bool" where
  "in_grid3 cfg idx =
     (case idx of (i, j, k) \<Rightarrow>
        0 \<le> i \<and> i < GRID_DIM_X cfg \<and> 0 \<le> j \<and> j < GRID_DIM_Y cfg \<and> 0 \<le> k \<and> k < GRID_DIM_Z cfg)"

definition full3 :: "real \<Rightarrow> array3" where
  "full3 v = (\<lambda>_. v)"

definition injected :: "config \<Rightarrow> real list \<Rightarrow> real list \<Rightarrow> real list \<Rightarrow> int \<times> int \<times> int \<Rightarrow> real" where
  "injected cfg x_vec y_vec emission_vec idx =
     sum_list (map (\<lambda>n. if (x_idx_of cfg (x_vec ! n), y_idx_of cfg (y_vec ! n), 0) = idx
                             then emission_vec ! n else 0)
                [0..<length x_vec])"

text \<open>The cell of a result, \<open>None\<close> when the call raised.\<close>

definition cell_of :: "py_error + ('i \<Rightarrow> real) \<Rightarrow> 'i \<Rightarrow> real option" where
  "cell_of r idx = (case r of Inl e \<Rightarrow> None | Inr a \<Rightarrow> Some (a idx))"

section \<open>Noise model (emission\_models.py)\<close>

text \<open>
  The body of the two inner loops of \<^verbatim>\<open>process_noise\<close>: the contribution of one source
  of level \<open>Lw\<close> at grid index \<open>(x_idx, y_idx)\<close> to the cell \<open>(x, y)\<close>.
  \<^verbatim>\<open>np.log10\<close> is \<open>log 10\<close> and \<^verbatim>\<open>10 ** e\<close> is \<open>10 powr e\<close>.
\<close>

definition dist_squared_m :: "real \<Rightarrow> real \<Rightarrow> int \<Rightarrow> int \<Rightarrow> int \<times> int \<Rightarrow> real" where
  "dist_squared_m cell_len_x_m cell_len_y_m x_idx y_idx idx =
     (case idx of (x, y) \<Rightarrow>
        let dx = real_of_int (x - x_idx) * cell_len_x_m;
            dy = real_of_int (y - y_idx) * cell_len_y_m
        in dx * dx + dy * dy)"

definition linear_contribution :: "real \<Rightarrow> real \<Rightarrow> real" where
  "linear_contribution Lw dist2 =
     (let S = 4 * pi * max dist2 1.0;
          Lp = Lw - 10 * log 10 S
      in 10 powr (Lp / 10))"

definition noise_cell ::
  "real \<Rightarrow> real \<Rightarrow> real \<Rightarrow> real \<Rightarrow> int \<Rightarrow> int \<Rightarrow> int \<times> int \<Rightarrow> array2 \<Rightarrow> array2" where
  "noise_cell Lw cell_len_x_m cell_len_y_m radius x_idx y_idx idx linear_matrix =
     (let dist2 = dist_squared_m cell_len_x_m cell_len_y_m x_idx y_idx idx
      in if dist2 > radius * radius then linear_matrix
         else linear_matrix(idx := linear_matrix idx + linear_contribution Lw dist2))"

text \<open>
  The body of the loop over the sources, for source \<open>i\<close>. The divisions by the cell
  extents and by the cell lengths raise on zero (a numpy zero gives \<^verbatim>\<open>inf\<close> or
  \<^verbatim>\<open>nan\<close>, on which \<^verbatim>\<open>int\<close> raises: the model has one error for these), and a
  \<open>y_vec\<close> or \<open>noise_vec\<close> shorter than \<open>x_vec\<close> raises \<^verbatim>\<open>IndexError\<close>.
\<close>

definition noise_source ::
  "config \<Rightarrow> real list \<Rightarrow> real list \<Rightarrow> real list \<Rightarrow> real \<Rightarrow> real \<Rightarrow> real \<Rightarrow> real \<Rightarrow>
   nat \<Rightarrow> array2 \<Rightarrow> py_error + array2" where
  "noise_source cfg x_vec y_vec noise_vec cell_len_x_m cell_len_y_m radius background_dB i
     linear_matrix =
     (if cell_dim_x cfg = 0 then Inl ZeroDivisionError
      else if \<not> i < length y_vec then Inl IndexError
      else if cell_dim_y cfg = 0 then Inl ZeroDivisionError
      else
        let x_idx = x_idx_of cfg (x_vec ! i);
            y_idx = y_idx_of cfg (y_vec ! i)
        in if \<not> (0 \<le> x_idx \<and> x_idx < GRID_DIM_X cfg \<and> 0 \<le> y_idx \<and> y_idx < GRID_DIM_Y cfg)
           then Inr linear_matrix
           else if \<not> i < length noise_vec then Inl IndexError
           else if cell_len_x_m = 0 \<or> cell_len_y_m = 0 then Inl ZeroDivisionError
           else
             let Lw = max (noise_vec ! i) background_dB;
                 x_min = max 0 (x_idx - py_int (radius / cell_len_x_m));
                 x_max = min (GRID_DIM_X cfg) (x_idx + py_int (radius / cell_len_x_m) + 1);
                 y_min = max 0 (y_idx - py_int (radius / cell_len_y_m));
                 y_max = min (GRID_DIM_Y cfg) (y_idx + py_int (radius / cell_len_y_m) + 1)
             in Inr (fold (noise_cell Lw cell_len_x_m cell_len_y_m radius x_idx y_idx)
                       (range2 x_min x_max y_min y_max) linear_matrix))"

definition process_noise ::
  "config \<Rightarrow> real list \<Rightarrow> real list \<Rightarrow> real list \<Rightarrow> real \<Rightarrow> real \<Rightarrow> real \<Rightarrow> real \<Rightarrow>
   py_error + array2" where
  "process_noise cfg x_vec y_vec noise_vec cell_len_x_m cell_len_y_m radius background_dB =
     (if GRID_DIM_X cfg = 0 \<or> GRID_DIM_Y cfg = 0 then Inl ZeroDivisionError
      else
        let background_linear = 10 powr (background_dB / 10);
            linear_matrix = (\<lambda>_. 1 * background_linear)
        in case foldE (noise_source cfg x_vec y_vec noise_vec cell_len_x_m cell_len_y_m
                         radius background_dB)
                  [0..<length x_vec] linear_matrix of
             Inl e \<Rightarrow> Inl e
           | Inr linear_matrix' \<Rightarrow> Inr (\<lambda>idx. 10 * log 10 (linear_matrix' idx)))"

section \<open>Timestep selection (emission\_models.py, run\_sim.py)\<close>

definition calculate_optimal_dt ::
  "real \<Rightarrow> real \<Rightarrow> real \<Rightarrow> real \<Rightarrow> real \<Rightarrow> real \<Rightarrow> py_error + real" where
  "calculate_optimal_dt cell_len_x_m cell_len_y_m cell_len_z_m diffusion loss_rate safety_factor =
     (if cell_len_x_m * cell_len_x_m = 0 \<or> cell_len_y_m * cell_len_y_m = 0
         \<or> cell_len_z_m * cell_len_z_m = 0
      then Inl ZeroDivisionError
      else
        let diff_x = diffusion / (cell_len_x_m * cell_len_x_m);
            diff_y = diffusion / (cell_len_y_m * cell_len_y_m);
            diff_z = diffusion / (cell_len_z_m * cell_len_z_m)
        in if loss_rate + 4 * (diff_x + diff_y + diff_z) = 0 then Inl ZeroDivisionError
           else
             let max_stable_dt = 2.0 / (loss_rate + 4 * (diff_x + diff_y + diff_z));
                 optimal_dt = max_stable_dt * safety_factor
             in Inr optimal_dt)"

text \<open>
  The driver, \<^verbatim>\<open>run_sim.py\<close>: \<^verbatim>\<open>n = math.ceil(1/dt); dt = 1/n; dt = min(dt, 1)\<close>.
\<close>

definition driver_dt :: "real \<Rightarrow> py_error + real" where
  "driver_dt dt =
     (if dt = 0 then Inl ZeroDivisionError
      else
        let n = \<lceil>1 / dt\<rceil>
        in if n = 0 then Inl ZeroDivisionError
           else Inr (min (1 / real_of_int n) 1))"

text \<open>
  The driver's call: the largest of its three diffusion coefficients (5, 5, 15) and of
  its three loss rates (0, 0, 0.001), safety factor 0.8, then the rounding above.
\<close>

definition run_sim_dt :: "real \<Rightarrow> real \<Rightarrow> real \<Rightarrow> py_error + real" where
  "run_sim_dt cell_len_x_m cell_len_y_m cell_len_z_m =
     (case calculate_optimal_dt cell_len_x_m cell_len_y_m cell_len_z_m
             (max 5.0 (max 5.0 15.0)) (max 0.0 (max 0.0 0.001)) 0.8 of
        Inl e \<Rightarrow> Inl e
      | Inr dt \<Rightarrow> driver_dt dt)"

section \<open>Snapshot statistics (process\_data.py)\<close>

subsection \<open>Strings and rounding\<close>

text \<open>\<^verbatim>\<open>s.split(sep)\<close> for a one-character separator.\<close>

fun split_on :: "char \<Rightarrow> string \<Rightarrow> string list" where
  "split_on sep [] = [[]]"
| "split_on sep (c # cs) =
     (if c = sep then [] # split_on sep cs
      else (case split_on sep cs of
              [] \<Rightarrow> [[c]]
            | w # ws \<Rightarrow> (c # w) # ws))"

text \<open>
  \<^verbatim>\<open>int(s)\<close> of a string, \<open>None\<close> for \<^verbatim>\<open>ValueError\<close>: surrounding ASCII whitespace,
  an optional sign, and at least one ASCII digit. (Python also accepts \<^verbatim>\<open>_\<close> between
  digits, which cannot occur in a part of a name split at \<^verbatim>\<open>_\<close>, and non-ASCII
  digits and whitespace.)
\<close>

definition is_space :: "char \<Rightarrow> bool" where
  "is_space c \<longleftrightarrow> c \<in> set [CHR '' '', CHR 0x09, CHR 0x0A, CHR 0x0B, CHR 0x0C, CHR 0x0D,
                            CHR 0x1C, CHR 0x1D, CHR 0x1E, CHR 0x1F]"

definition strip :: "string \<Rightarrow> string" where
  "strip s = rev (dropWhile is_space (rev (dropWhile is_space s)))"

definition digit_of :: "char \<Rightarrow> nat option" where
  "digit_of c =
     (if 48 \<le> (of_char c :: nat) \<and> (of_char c :: nat) \<le> 57 then Some (of_char c - 48) else None)"

fun nat_of_digits :: "string \<Rightarrow> nat \<Rightarrow> nat option" where
  "nat_of_digits [] acc = Some acc"
| "nat_of_digits (c # cs) acc =
     (case digit_of c of
        None \<Rightarrow> None
      | Some d \<Rightarrow> nat_of_digits cs (10 * acc + d))"

definition int_of_string :: "string \<Rightarrow> int option" where
  "int_of_string s =
     (case strip s of
        [] \<Rightarrow> None
      | c # cs \<Rightarrow>
          if c = CHR ''-'' then (if cs = [] then None else map_option (\<lambda>n. - int n) (nat_of_digits cs 0))
          else if c = CHR ''+'' then (if cs = [] then None else map_option int (nat_of_digits cs 0))
          else map_option int (nat_of_digits (c # cs) 0))"

text \<open>\<^verbatim>\<open>str(n)\<close> of an int, as it appears in an f-string.\<close>

definition digit_char :: "nat \<Rightarrow> char" where
  "digit_char d = ''0123456789'' ! d"

fun str_nat :: "nat \<Rightarrow> string" where
  "str_nat n = (if n < 10 then [digit_char n] else str_nat (n div 10) @ [digit_char (n mod 10)])"

declare str_nat.simps [simp del]

definition str_int :: "int \<Rightarrow> string" where
  "str_int i = (if i < 0 then CHR ''-'' # str_nat (nat (- i)) else str_nat (nat i))"

text \<open>\<^verbatim>\<open>round(x)\<close> of a float: to the nearest integer, a tie to the even one.\<close>

definition py_round :: "real \<Rightarrow> int" where
  "py_round x =
     (let f = \<lfloor>x\<rfloor>;
          d = x - real_of_int f
      in if d < 1 / 2 then f
         else if 1 / 2 < d then f + 1
         else if even f then f else f + 1)"

subsection \<open>Arrays of the aggregator\<close>

definition zeros2 :: array2 where
  "zeros2 = (\<lambda>_. 0)"

text \<open>\<^verbatim>\<open>np.minimum\<close> of a cell that may still hold \<^verbatim>\<open>np.inf\<close> with a cell of a
  snapshot, and \<^verbatim>\<open>min_array[np.isinf(min_array)] = 0\<close>.\<close>

fun minimum_pyfloat :: "pyfloat \<Rightarrow> real \<Rightarrow> pyfloat" where
  "minimum_pyfloat (Fin a) x = Fin (min a x)"
| "minimum_pyfloat PInf x = Fin x"

fun inf_to_zero :: "pyfloat \<Rightarrow> real" where
  "inf_to_zero (Fin a) = a"
| "inf_to_zero PInf = 0"

text \<open>
  A snapshot file: the base name of its path and the array \<^verbatim>\<open>pd.read_csv(file).values\<close>
  reads from it. A call \<^verbatim>\<open>save_vec_to_csv(array, folder, f"{data_key}{rest}")\<close> is the
  triple \<open>(data_key, rest, array)\<close>.
\<close>

record snapshot_file =
  filename :: string
  content :: array2

type_synonym saved_csv = "string \<times> string \<times> array2"
type_synonym file_data = "(snapshot_file \<times> int) list"
type_synonym timestamp_data = "(int \<times> array2) list"

subsection \<open>Moving averages\<close>

text \<open>
  The body of the loop of \<^verbatim>\<open>calculate_moving_average_for_window\<close> for one
  \<open>start_time\<close>: the saved file, if any. \<open>timestamp_data\<close> is the dict, in insertion
  order; a timestamp that is not a key raises \<^verbatim>\<open>KeyError\<close>.
\<close>

definition moving_average_at ::
  "string \<Rightarrow> int list \<Rightarrow> timestamp_data \<Rightarrow> int \<Rightarrow> int \<Rightarrow> string \<Rightarrow> string \<Rightarrow> int \<Rightarrow>
   py_error + saved_csv list" where
  "moving_average_at data_key timestamps timestamp_data window_size min_points window_name
     time_label start_time =
     (let end_time = start_time + window_size;
          window_timestamps = filter (\<lambda>t. start_time \<le> t \<and> t < end_time) timestamps
      in if int (length window_timestamps) \<ge> min_points
         then
           (case foldE (\<lambda>t (window_sum, count).
                          case map_of timestamp_data t of
                            None \<Rightarrow> Inl KeyError
                          | Some a \<Rightarrow> Inr (\<lambda>idx. window_sum idx + a idx, count + 1))
                   window_timestamps (zeros2, 0 :: int) of
              Inl e \<Rightarrow> Inl e
            | Inr (window_sum, count) \<Rightarrow>
                let window_avg = (\<lambda>idx. window_sum idx / real_of_int count);
                    start_hour = py_int (real_of_int start_time / 3600)
                in Inr [(data_key,
                         ''_'' @ window_name @ ''_avg_'' @ time_label @ str_int start_hour @ ''.csv'',
                         window_avg)])
         else Inr [])"

definition calculate_moving_average_for_window ::
  "string \<Rightarrow> int list \<Rightarrow> timestamp_data \<Rightarrow> int \<Rightarrow> int \<Rightarrow> string \<Rightarrow> string \<Rightarrow>
   py_error + saved_csv list" where
  "calculate_moving_average_for_window data_key timestamps timestamp_data window_size min_points
     window_name time_label =
     foldE (\<lambda>start_time saved.
              case moving_average_at data_key timestamps timestamp_data window_size min_points
                     window_name time_label start_time of
                Inl e \<Rightarrow> Inl e
              | Inr s \<Rightarrow> Inr (saved @ s))
       timestamps []"

text \<open>The window families: name, window size, minimum number of points, label.\<close>

definition windows :: "(string \<times> int \<times> int \<times> string) list" where
  "windows = [(''1h'', 3600, 1, ''hour''),
              (''8h'', 8 * 3600, 8, ''from_hour''),
              (''24h'', 24 * 3600, 24, ''from_hour'')]"

definition calculate_moving_averages :: "string \<Rightarrow> timestamp_data \<Rightarrow> py_error + saved_csv list" where
  "calculate_moving_averages data_key timestamp_data =
     (let timestamps = sort (map fst timestamp_data)
      in if length timestamps = 0 then Inr []
         else foldE (\<lambda>(window_name, window_size, min_points, time_label) saved.
                       case calculate_moving_average_for_window data_key timestamps timestamp_data
                              window_size min_points window_name time_label of
                         Inl e \<Rightarrow> Inl e
                       | Inr s \<Rightarrow> Inr (saved @ s))
                windows [])"




subsection \<open>Overall statistics\<close>

text \<open>
  The loop of \<^verbatim>\<open>calculate_statistics\<close> over the files, sorted by timestamp: the dict
  entry of the timestamp is overwritten, maximum, minimum and sum are updated.
\<close>

definition statistics_step ::
  "snapshot_file \<times> int \<Rightarrow> timestamp_data \<times> array2 \<times> (int \<times> int \<Rightarrow> pyfloat) \<times> array2 \<Rightarrow>
   timestamp_data \<times> array2 \<times> (int \<times> int \<Rightarrow> pyfloat) \<times> array2" where
  "statistics_step entry state =
     (case entry of (file, timestamp) \<Rightarrow>
      case state of (timestamp_data, max_array, min_array, sum_array) \<Rightarrow>
        let current_array = content file
        in (AList.update timestamp current_array timestamp_data,
            (\<lambda>idx. max (max_array idx) (current_array idx)),
            (\<lambda>idx. minimum_pyfloat (min_array idx) (current_array idx)),
            (\<lambda>idx. sum_array idx + current_array idx)))"

text \<open>The arrays \<open>(max_array, min_array, avg_array, diff_array)\<close> and the dict.\<close>

definition statistics_arrays ::
  "file_data \<Rightarrow> array2 \<times> array2 \<times> array2 \<times> array2 \<times> timestamp_data" where
  "statistics_arrays file_data =
     (let sorted_data = sort_key snd file_data;
          file_count = length sorted_data
      in case fold statistics_step sorted_data ([], zeros2, (\<lambda>_. PInf), zeros2) of
           (timestamp_data, max_array, min_array0, sum_array) \<Rightarrow>
             let min_array = (\<lambda>idx. inf_to_zero (min_array0 idx));
                 avg_array = (if file_count > 0 then (\<lambda>idx. sum_array idx / real file_count)
                              else sum_array);
                 diff_array = (\<lambda>idx. max_array idx - min_array idx)
             in (max_array, min_array, avg_array, diff_array, timestamp_data))"

definition calculate_statistics :: "string \<Rightarrow> file_data \<Rightarrow> py_error + saved_csv list" where
  "calculate_statistics data_key file_data =
     (case statistics_arrays file_data of
        (max_array, min_array, avg_array, diff_array, timestamp_data) \<Rightarrow>
          let saved = [(data_key, ''_max.csv'', max_array),
                       (data_key, ''_min.csv'', min_array),
                       (data_key, ''_avg.csv'', avg_array),
                       (data_key, ''_diff.csv'', diff_array)]
          in (case calculate_moving_averages data_key timestamp_data of
                Inl e \<Rightarrow> Inl e
              | Inr s \<Rightarrow> Inr (saved @ s)))"

subsection \<open>Grouping the files\<close>

text \<open>
  The \<^verbatim>\<open>try\<close> block of \<^verbatim>\<open>process_data_statistics\<close>: the timestamp is parsed,
  rounded to a multiple of 3600 and checked; the file is appended to the list of its key,
  which is created when it is missing. An unparsable or invalid timestamp leaves
  \<open>data_types\<close> as it is and the loop goes on.
\<close>

definition round_to_hour :: "int \<Rightarrow> int" where
  "round_to_hour timestamp = py_round (real_of_int timestamp / 3600) * 3600"

definition store_snapshot ::
  "snapshot_file \<Rightarrow> string \<Rightarrow> string \<Rightarrow> (string \<times> file_data) list \<Rightarrow> (string \<times> file_data) list" where
  "store_snapshot file data_key timestamp_str data_types =
     (case int_of_string timestamp_str of
        None \<Rightarrow> data_types
      | Some timestamp0 \<Rightarrow>
          let timestamp = round_to_hour timestamp0
          in if timestamp < 0 \<or> timestamp > 86400 then data_types
             else (case map_of data_types data_key of
                     None \<Rightarrow> AList.update data_key [(file, timestamp)] data_types
                   | Some l \<Rightarrow> AList.update data_key (l @ [(file, timestamp)]) data_types))"

text \<open>
  The head of the loop body, on the base name of a file: a name of three parts
  (\<^verbatim>\<open>data_co_3000\<close>) has no height; a name of four parts (\<^verbatim>\<open>data_co_1_3000\<close>) is
  kept only for height 1, and \<^verbatim>\<open>int(parts[2])\<close> is outside the \<^verbatim>\<open>try\<close>, so that it
  raises; any other name ends the loop (\<^verbatim>\<open>break\<close>). A kept name gives the data key and
  the timestamp string.
\<close>

datatype parsed_name = Snapshot string string | Other_height | Bad_height | Break

definition parse_filename :: "string \<Rightarrow> parsed_name" where
  "parse_filename name =
     (let parts = split_on CHR ''_'' name
      in if length parts = 3
         then Snapshot (parts ! 0 @ ''_'' @ parts ! 1) (hd (split_on CHR ''.'' (parts ! 2)))
         else if length parts = 4
         then (case int_of_string (parts ! 2) of
                 None \<Rightarrow> Bad_height
               | Some height \<Rightarrow>
                   if height \<noteq> 1 then Other_height
                   else Snapshot (parts ! 0 @ ''_'' @ parts ! 1) (hd (split_on CHR ''.'' (parts ! 3))))
         else Break)"

text \<open>The loop over the files.\<close>

fun group_files :: "snapshot_file list \<Rightarrow> (string \<times> file_data) list \<Rightarrow> py_error + (string \<times> file_data) list" where
  "group_files [] data_types = Inr data_types"
| "group_files (file # files) data_types =
     (case parse_filename (filename file) of
        Snapshot data_key timestamp_str \<Rightarrow>
          group_files files (store_snapshot file data_key timestamp_str data_types)
      | Other_height \<Rightarrow> group_files files data_types
      | Bad_height \<Rightarrow> Inl ValueError
      | Break \<Rightarrow> Inr data_types)"

definition process_data_statistics :: "snapshot_file list \<Rightarrow> py_error + saved_csv list" where
  "process_data_statistics files =
     (case group_files files [] of
        Inl e \<Rightarrow> Inl e
      | Inr data_types \<Rightarrow>
          foldE (\<lambda>(data_key, file_data) saved.
                   case calculate_statistics data_key file_data of
                     Inl e \<Rightarrow> Inl e
                   | Inr s \<Rightarrow> Inr (saved @ s))
            data_types [])"

section \<open>Properties of the AQI converter\<close>

lemma AQIH_NO2_last_tier:
  "600 \<le> c \<Longrightarrow> calculate_aqi_for_pollutant_AQIH c ''NO2'' = Inr 9"
  by (simp add: calculate_aqi_for_pollutant_AQIH_def breakpoints_AQIH_def)

lemma AQIH_PM25_last_tier:
  "142 \<le> c \<Longrightarrow> calculate_aqi_for_pollutant_AQIH c ''PM2.5'' = Inr 9"
  by (simp add: calculate_aqi_for_pollutant_AQIH_def breakpoints_AQIH_def)

text \<open>
  C1. The claim: NO2 at exactly 600 yields 9 and every NO2 concentration above 600 yields
  10; PM2.5 at exactly 142 yields 9 and every concentration above 142 yields 10. The code
  at these inputs: the last tier \<^verbatim>\<open>[600, inf, 9, 10]\<close> matches every concentration from
  600 on, its slope is \<^verbatim>\<open>1/inf = 0.0\<close>, and the result is 9 at 600, at 700 and everywhere
  above; the final \<^verbatim>\<open>return 10\<close> is never reached by a finite concentration. The same
  holds for PM2.5 from 142 on.
\<close>

theorem C1_AQIH_top_tier_yields_9:
  "calculate_aqi_for_pollutant_AQIH 600 ''NO2'' = Inr 9
   \<and> calculate_aqi_for_pollutant_AQIH 700 ''NO2'' = Inr 9
   \<and> calculate_aqi_for_pollutant_AQIH 142 ''PM2.5'' = Inr 9
   \<and> calculate_aqi_for_pollutant_AQIH 150 ''PM2.5'' = Inr 9"
  by (simp add: calculate_aqi_for_pollutant_AQIH_def breakpoints_AQIH_def)

lemma US_AQI_upper_bound:
  "(p, bps) \<in> set breakpoints_US \<Longrightarrow> bp \<in> set bps \<Longrightarrow>
   calculate_aqi_for_pollutant_US_AQI (conc_high bp) p = Inr (index_high bp)"
  unfolding breakpoints_US_def calculate_aqi_for_pollutant_US_AQI_def conc_high_def index_high_def
  by (elim disjE | simp)+

lemma US_AQI_gap:
  "(p, bps) \<in> set breakpoints_US \<Longrightarrow> (b1, b2) \<in> set (consecutive bps) \<Longrightarrow>
   conc_high b1 < c \<Longrightarrow> c < conc_low b2 \<Longrightarrow>
   calculate_aqi_for_pollutant_US_AQI c p = Inr 0"
  unfolding breakpoints_US_def calculate_aqi_for_pollutant_US_AQI_def conc_high_def conc_low_def
  by (elim disjE | simp)+

text \<open>
  C7. For the US AQI converter, a concentration exactly equal to the upper bound of a
  tier of a pollutant's table yields that tier's index high; in particular CO at exactly
  4.4 ppm yields 50.
\<close>

theorem C7_US_AQI_upper_bound_yields_index_high:
  "(\<forall>p bps bp. (p, bps) \<in> set breakpoints_US \<longrightarrow> bp \<in> set bps \<longrightarrow>
      calculate_aqi_for_pollutant_US_AQI (conc_high bp) p = Inr (index_high bp))
   \<and> calculate_aqi_for_pollutant_US_AQI 4.4 ''CO'' = Inr 50"
proof -
  have "calculate_aqi_for_pollutant_US_AQI 4.4 ''CO'' = Inr 50"
    by (simp add: breakpoints_US_def calculate_aqi_for_pollutant_US_AQI_def)
  then show ?thesis
    using US_AQI_upper_bound by blast
qed

theorem C7_witness:
  "calculate_aqi_for_pollutant_US_AQI 35.4 ''PM2.5'' = Inr 100
   \<and> calculate_aqi_for_pollutant_US_AQI 649 ''NO2'' = Inr 200"
proof -
  let ?pm = "[(0, 12.0, 0, 50), (12.1, 35.4, 51, 100), (35.5, 55.4, 101, 150),
              (55.5, 150.4, 151, 200), (150.5, 250.4, 201, 300),
              (250.5, 350.4, 301, 400), (350.5, 500.4, 401, 500)] :: tier list"
  let ?no = "[(0, 53, 0, 50), (54, 100, 51, 100), (101, 360, 101, 150),
              (361, 649, 151, 200), (650, 1249, 201, 300),
              (1250, 1649, 301, 400), (1650, 2049, 401, 500)] :: tier list"
  have pm: "(''PM2.5'', ?pm) \<in> set breakpoints_US" and no: "(''NO2'', ?no) \<in> set breakpoints_US"
    by (simp_all add: breakpoints_US_def)
  have bpm: "(12.1, 35.4, 51, 100) \<in> set ?pm" and bno: "(361, 649, 151, 200) \<in> set ?no"
    by simp_all
  from C7_US_AQI_upper_bound_yields_index_high pm bpm
  have "calculate_aqi_for_pollutant_US_AQI (conc_high (12.1, 35.4, 51, 100)) ''PM2.5''
        = Inr (index_high (12.1, 35.4, 51, 100))"
    by blast
  moreover from C7_US_AQI_upper_bound_yields_index_high no bno
  have "calculate_aqi_for_pollutant_US_AQI (conc_high (361, 649, 151, 200)) ''NO2''
        = Inr (index_high (361, 649, 151, 200))"
    by blast
  ultimately show ?thesis
    by (simp add: conc_high_def index_high_def)
qed

text \<open>
  C10. For the US AQI converter, a concentration strictly inside the gap between two
  consecutive tiers of a table (above the upper bound of one, below the lower bound of
  the next) matches no tier and the function returns 0; so for CO in (4.4, 4.5), NO2 in
  (53, 54) and PM2.5 in (12.0, 12.1).
\<close>

theorem C10_US_AQI_gap_returns_0:
  "(\<forall>p bps b1 b2 c. (p, bps) \<in> set breakpoints_US \<longrightarrow> (b1, b2) \<in> set (consecutive bps) \<longrightarrow>
      conc_high b1 < c \<longrightarrow> c < conc_low b2 \<longrightarrow>
      calculate_aqi_for_pollutant_US_AQI c p = Inr 0)
   \<and> (\<forall>c. 4.4 < c \<longrightarrow> c < 4.5 \<longrightarrow> calculate_aqi_for_pollutant_US_AQI c ''CO'' = Inr 0)
   \<and> (\<forall>c. 53 < c \<longrightarrow> c < 54 \<longrightarrow> calculate_aqi_for_pollutant_US_AQI c ''NO2'' = Inr 0)
   \<and> (\<forall>c. 12.0 < c \<longrightarrow> c < 12.1 \<longrightarrow> calculate_aqi_for_pollutant_US_AQI c ''PM2.5'' = Inr 0)"
proof -
  have "\<And>c. 4.4 < c \<Longrightarrow> c < 4.5 \<Longrightarrow> calculate_aqi_for_pollutant_US_AQI c ''CO'' = Inr 0"
    by (simp add: breakpoints_US_def calculate_aqi_for_pollutant_US_AQI_def)
  moreover
  have "\<And>c. 53 < c \<Longrightarrow> c < 54 \<Longrightarrow> calculate_aqi_for_pollutant_US_AQI c ''NO2'' = Inr 0"
    by (simp add: breakpoints_US_def calculate_aqi_for_pollutant_US_AQI_def)
  moreover
  have "\<And>c. 12.0 < c \<Longrightarrow> c < 12.1 \<Longrightarrow> calculate_aqi_for_pollutant_US_AQI c ''PM2.5'' = Inr 0"
    by (simp add: breakpoints_US_def calculate_aqi_for_pollutant_US_AQI_def)
  ultimately show ?thesis
    using US_AQI_gap by blast
qed

theorem C10_witness:
  "calculate_aqi_for_pollutant_US_AQI 4.45 ''CO'' = Inr 0
   \<and> calculate_aqi_for_pollutant_US_AQI 53.5 ''NO2'' = Inr 0
   \<and> calculate_aqi_for_pollutant_US_AQI 12.05 ''PM2.5'' = Inr 0"
proof -
  have "(4.4::real) < 4.45" "(4.45::real) < 4.5" "(53::real) < 53.5" "(53.5::real) < 54"
       "(12.0::real) < 12.05" "(12.05::real) < 12.1"
    by simp_all
  with C10_US_AQI_gap_returns_0 show ?thesis
    by blast
qed

section \<open>Loops over arrays\<close>

lemma fold_pointwise:
  assumes other: "\<And>p m q. p \<noteq> q \<Longrightarrow> f p m q = m q"
    and self: "\<And>p m. f p m p = h p (m p)"
    and d: "distinct ps"
  shows "fold f ps m q = (if q \<in> set ps then h q (m q) else m q)"
  using d
proof (induction ps arbitrary: m)
  case Nil
  then show ?case by simp
next
  case (Cons p ps)
  show ?case
  proof (cases "q = p")
    case True
    with Cons show ?thesis by (simp add: self)
  next
    case False
    with Cons show ?thesis using other[of p q m] by simp
  qed
qed

lemma fold_accumulate:
  fixes e :: "'a \<Rightarrow> real"
  shows "fold (\<lambda>i m. if ok i then m(t i := m (t i) + e i) else m) ns m q
   = m q + sum_list (map (\<lambda>i. if ok i \<and> t i = q then e i else 0) ns)"
  by (induction ns arbitrary: m) (auto simp: algebra_simps)

lemma nested_product2:
  "concat (map (\<lambda>j. map (\<lambda>k. (i, j, k)) C) B) = map (Pair i) (List.product B C)"
  by (induction B) simp_all

lemma nested_product3:
  "concat (map (\<lambda>i. concat (map (\<lambda>j. map (\<lambda>k. (i, j, k)) C) B)) A)
   = List.product A (List.product B C)"
  by (induction A) (simp_all add: nested_product2)

lemma range3_product:
  "range3 a b c = List.product (py_range 0 a) (List.product (py_range 0 b) (py_range 0 c))"
  unfolding range3_def by (rule nested_product3)

lemma range2_product:
  "range2 a b c d = List.product (py_range a b) (py_range c d)"
  unfolding range2_def by (induction "py_range a b") (simp_all add: product_concat_map)

lemma distinct_py_range: "distinct (py_range a b)"
  by (simp add: py_range_def)

lemma distinct_range3: "distinct (range3 a b c)"
  by (simp add: range3_product distinct_product distinct_py_range)

lemma distinct_range2: "distinct (range2 a b c d)"
  by (simp add: range2_product distinct_product distinct_py_range)

lemma set_range3:
  "set (range3 a b c) = {(i, j, k). 0 \<le> i \<and> i < a \<and> 0 \<le> j \<and> j < b \<and> 0 \<le> k \<and> k < c}"
  by (auto simp: range3_product py_range_def)

lemma set_range2:
  "set (range2 a b c d) = {(x, y). a \<le> x \<and> x < b \<and> c \<le> y \<and> y < d}"
  by (auto simp: range2_product py_range_def)

lemma diffusion_cell_other:
  "p \<noteq> q \<Longrightarrow> diffusion_cell padded dfx dfy dfz loss dv dt V p m q = m q"
  by (simp add: diffusion_cell_def Let_def)

lemma diffusion_cell_self:
  "diffusion_cell padded dfx dfy dfz loss dv dt V p m p
   = max (dv * V) (m p + (dt * V * diff_change padded dfx dfy dfz p - dt * loss * m p))"
  by (simp add: diffusion_cell_def Let_def max_def)

lemma fold_diffusion_cell:
  "fold (diffusion_cell padded dfx dfy dfz loss dv dt V) (range3 a b c) m q
   = (if q \<in> set (range3 a b c)
      then max (dv * V) (m q + (dt * V * diff_change padded dfx dfy dfz q - dt * loss * m q))
      else m q)"
  by (rule fold_pointwise[where h = "\<lambda>p v. max (dv * V) (v + (dt * V * diff_change padded dfx dfy dfz p - dt * loss * v))"])
     (simp_all add: diffusion_cell_other diffusion_cell_self distinct_range3)

lemma process_diffusion_cells:
  assumes "V \<noteq> 0" "dx2 \<noteq> 0" "dy2 \<noteq> 0" "dz2 \<noteq> 0"
  shows "process_diffusion (a, b, c) pshape old padded dx2 dy2 dz2 D loss dv dt V
          = Inr (\<lambda>q. if q \<in> set (range3 a b c)
                     then max (dv * V)
                            (old q + (dt * V * diff_change (pad_concentration (a, b, c) pshape old padded V)
                                                 (D / dx2) (D / dy2) (D / dz2) q
                                      - dt * loss * old q))
                     else old q)"
  using assms
  by (simp add: process_diffusion_def Let_def fold_diffusion_cell fun_eq_iff)

lemma add_emissions_cells:
  "add_emissions old xi yi es gx gy q
   = old q + sum_list (map (\<lambda>n. if (0 \<le> xi ! n \<and> xi ! n < gx \<and> 0 \<le> yi ! n \<and> yi ! n < gy)
                                     \<and> (xi ! n, yi ! n, 0) = q then es ! n else 0) [0..<length xi])"
  unfolding add_emissions_def Let_def
  by (rule fold_accumulate)

lemma add_emissions_injected:
  assumes "in_grid3 cfg q" "length y_vec = length x_vec"
  shows "add_emissions old (map (x_idx_of cfg) x_vec) (map (y_idx_of cfg) y_vec) es
           (GRID_DIM_X cfg) (GRID_DIM_Y cfg) q
         = old q + injected cfg x_vec y_vec es q"
proof -
  have "map (\<lambda>n. if (0 \<le> map (x_idx_of cfg) x_vec ! n \<and> map (x_idx_of cfg) x_vec ! n < GRID_DIM_X cfg
               \<and> 0 \<le> map (y_idx_of cfg) y_vec ! n \<and> map (y_idx_of cfg) y_vec ! n < GRID_DIM_Y cfg)
               \<and> (map (x_idx_of cfg) x_vec ! n, map (y_idx_of cfg) y_vec ! n, 0) = q then es ! n else 0)
             [0..<length x_vec]
        = map (\<lambda>n. if (x_idx_of cfg (x_vec ! n), y_idx_of cfg (y_vec ! n), 0) = q then es ! n else 0)
             [0..<length x_vec]"
    by (rule map_cong[OF refl]) (use assms in \<open>cases q, auto simp: in_grid3_def\<close>)
  then show ?thesis
    by (simp only: add_emissions_cells injected_def length_map)
qed

lemma process_gas_step_cells:
  assumes "lx \<noteq> 0" "ly \<noteq> 0" "lz \<noteq> 0"
    and "GRID_DIM_X cfg \<noteq> 0" "GRID_DIM_Y cfg \<noteq> 0"
    and "length y_vec = length x_vec"
  shows "\<exists>new padded2. process_gas_step cfg old x_vec y_vec es lx ly lz dv D loss dt = Inr new
     \<and> (\<forall>q. in_grid3 cfg q \<longrightarrow>
            new q = max (dv * (lx * ly * lz))
                      (old q + injected cfg x_vec y_vec es q
                       + (dt * (lx * ly * lz)
                             * diff_change padded2 (D / (lx * lx)) (D / (ly * ly)) (D / (lz * lz)) q
                          - dt * loss * (old q + injected cfg x_vec y_vec es q))))"
proof -
  let ?V = "lx * ly * lz"
  let ?old1 = "if x_vec = [] then old
               else add_emissions old (map (x_idx_of cfg) x_vec) (map (y_idx_of cfg) y_vec) es
                      (GRID_DIM_X cfg) (GRID_DIM_Y cfg)"
  have V: "?V \<noteq> 0" using assms by simp
  have sq: "lx * lx \<noteq> 0" "ly * ly \<noteq> 0" "lz * lz \<noteq> 0" using assms by simp_all
  have inj0: "x_vec = [] \<Longrightarrow> injected cfg x_vec y_vec es q = 0" for q
    by (simp add: injected_def)
  have old1: "in_grid3 cfg q \<Longrightarrow> ?old1 q = old q + injected cfg x_vec y_vec es q" for q
    using add_emissions_injected[OF _ assms(6), of cfg q old es] inj0[of q] by auto
  have mem: "q \<in> set (range3 (GRID_DIM_X cfg) (GRID_DIM_Y cfg) (GRID_DIM_Z cfg)) \<longleftrightarrow> in_grid3 cfg q" for q
    by (cases q) (simp add: set_range3 in_grid3_def)
  have eq: "process_gas_step cfg old x_vec y_vec es lx ly lz dv D loss dt
     = process_diffusion (GRID_DIM_X cfg, GRID_DIM_Y cfg, GRID_DIM_Z cfg)
         (GRID_DIM_X cfg + 2, GRID_DIM_Y cfg + 2, GRID_DIM_Z cfg + 2) ?old1 (\<lambda>_. dv)
         (lx * lx) (ly * ly) (lz * lz) D loss dv dt ?V"
    using assms(4,5) by (simp add: process_gas_step_def Let_def)
  let ?pad = "pad_concentration (GRID_DIM_X cfg, GRID_DIM_Y cfg, GRID_DIM_Z cfg)
         (GRID_DIM_X cfg + 2, GRID_DIM_Y cfg + 2, GRID_DIM_Z cfg + 2) ?old1 (\<lambda>_. dv) ?V"
  let ?new = "\<lambda>q. if q \<in> set (range3 (GRID_DIM_X cfg) (GRID_DIM_Y cfg) (GRID_DIM_Z cfg))
                 then max (dv * ?V)
                        (?old1 q + (dt * ?V * diff_change ?pad (D / (lx * lx)) (D / (ly * ly)) (D / (lz * lz)) q
                                    - dt * loss * ?old1 q))
                 else ?old1 q"
  have res: "process_gas_step cfg old x_vec y_vec es lx ly lz dv D loss dt = Inr ?new"
    unfolding eq by (rule process_diffusion_cells[OF V sq])
  have "\<forall>q. in_grid3 cfg q \<longrightarrow>
            ?new q = max (dv * ?V)
                      (old q + injected cfg x_vec y_vec es q
                       + (dt * ?V * diff_change ?pad (D / (lx * lx)) (D / (ly * ly)) (D / (lz * lz)) q
                          - dt * loss * (old q + injected cfg x_vec y_vec es q)))"
    by (simp add: mem old1)
  with res show ?thesis by blast
qed

section \<open>Properties of the timestep selection\<close>

lemma calculate_optimal_dt_value:
  assumes "0 < lx" "0 < ly" "0 < lz" "0 \<le> D" "0 \<le> loss" "0 < D \<or> 0 < loss" "0 < sf"
  defines "dt_max \<equiv> 2 / (loss + 4 * (D / (lx * lx) + D / (ly * ly) + D / (lz * lz)))"
  shows "calculate_optimal_dt lx ly lz D loss sf = Inr (dt_max * sf)" "0 < dt_max * sf"
proof -
  have nn: "0 \<le> D / (lx * lx)" "0 \<le> D / (ly * ly)" "0 \<le> D / (lz * lz)" using assms by simp_all
  have lin: "\<And>a b c l :: real. 0 \<le> a \<Longrightarrow> 0 \<le> b \<Longrightarrow> 0 \<le> c \<Longrightarrow> 0 \<le> l \<Longrightarrow> 0 < a \<or> 0 < l
      \<Longrightarrow> 0 < l + 4 * (a + b + c)"
    by (erule disjE) simp_all
  have "0 < D / (lx * lx) \<or> 0 < loss" using assms(1,6) by auto
  with nn assms(5) have pos: "0 < loss + 4 * (D / (lx * lx) + D / (ly * ly) + D / (lz * lz))"
    by (intro lin)
  then show "calculate_optimal_dt lx ly lz D loss sf = Inr (dt_max * sf)"
    using assms(1-3) by (simp add: calculate_optimal_dt_def dt_max_def Let_def)
  show "0 < dt_max * sf" using pos assms(7) by (simp add: dt_max_def)
qed

lemma driver_dt_value:
  assumes "0 < t"
  defines "n \<equiv> \<lceil>1 / t\<rceil>"
  shows "driver_dt t = Inr (min (1 / real_of_int n) 1)" "1 \<le> n" "1 / real_of_int n \<le> t"
    "\<And>m. 1 \<le> m \<Longrightarrow> 1 / real_of_int m \<le> t \<Longrightarrow> n \<le> m" "min (1 / real_of_int n) 1 = 1 / real_of_int n"
proof -
  have "0 < 1 / t" using assms by simp
  then have "0 < n" unfolding n_def by (simp add: ceiling_less_iff[symmetric] less_ceiling_iff)
  then show n1: "1 \<le> n" by simp
  from \<open>0 < n\<close> have nz: "\<lceil>1 / t\<rceil> \<noteq> 0" unfolding n_def by linarith
  show "driver_dt t = Inr (min (1 / real_of_int n) 1)"
    using assms(1) nz by (simp add: driver_dt_def Let_def n_def)
  have "1 / t \<le> real_of_int n" unfolding n_def by simp
  then show "1 / real_of_int n \<le> t" using assms(1) \<open>0 < n\<close>
    by (simp add: field_simps)
  show "min (1 / real_of_int n) 1 = 1 / real_of_int n" using n1 by (simp add: min_def)
  fix m :: int assume m: "1 \<le> m" "1 / real_of_int m \<le> t"
  then have "1 / t \<le> real_of_int m" using assms(1) by (simp add: field_simps)
  then show "n \<le> m" unfolding n_def by (simp add: ceiling_le_iff)
qed


text \<open>
  C5. The timestep selection computes
  \<open>dt_max = 2 / (decay_rate + 4 * (D / dx\<^sup>2 + D / dy\<^sup>2 + D / dz\<^sup>2))\<close> and multiplies it
  by the safety factor; the driver then sets \<open>dt = 1 / n\<close> for the smallest positive integer
  \<open>n\<close> with \<open>1 / n \<le> dt_max * safety_factor\<close> and caps it at 1 (which leaves it as it is).
  The cell sizes and the safety factor are positive, \<open>D\<close> and the decay rate are not
  negative and not both zero, so that \<open>dt_max\<close> exists.
\<close>

theorem C5_timestep_selection:
  assumes "0 < dx" "0 < dy" "0 < dz" "0 \<le> D" "0 \<le> decay_rate" "0 < D \<or> 0 < decay_rate"
    and "0 < safety_factor"
  shows "let dt_max = 2 / (decay_rate + 4 * (D / dx\<^sup>2 + D / dy\<^sup>2 + D / dz\<^sup>2));
             n = \<lceil>1 / (dt_max * safety_factor)\<rceil>
         in calculate_optimal_dt dx dy dz D decay_rate safety_factor = Inr (dt_max * safety_factor)
            \<and> driver_dt (dt_max * safety_factor) = Inr (min (1 / real_of_int n) 1)
            \<and> 1 \<le> n \<and> 1 / real_of_int n \<le> dt_max * safety_factor
            \<and> (\<forall>m. 1 \<le> m \<and> 1 / real_of_int m \<le> dt_max * safety_factor \<longrightarrow> n \<le> m)
            \<and> min (1 / real_of_int n) 1 = 1 / real_of_int n"
proof -
  let ?t = "2 / (decay_rate + 4 * (D / (dx * dx) + D / (dy * dy) + D / (dz * dz))) * safety_factor"
  have t: "0 < ?t" by (rule calculate_optimal_dt_value(2)[OF assms])
  show ?thesis
    unfolding Let_def power2_eq_square
    using calculate_optimal_dt_value(1)[OF assms] driver_dt_value[OF t]
    by blast
qed

theorem C5_witness:
  "calculate_optimal_dt 10 10 2 15 0.001 0.8 = Inr (1600 / 16201)
   \<and> driver_dt (1600 / 16201) = Inr (1 / 11)
   \<and> run_sim_dt 10 10 2 = Inr (1 / 11)"
proof -
  have h: "(0::real) < 10" "(0::real) < 2" "(0::real) \<le> 15" "(0::real) \<le> 0.001"
    "(0::real) < 15 \<or> (0::real) < 0.001" "(0::real) < 0.8"
    by simp_all
  have v: "2 / (0.001 + 4 * (15 / 10\<^sup>2 + 15 / 10\<^sup>2 + 15 / 2\<^sup>2)) * 0.8 = (1600 / 16201 :: real)"
    by (simp add: power2_eq_square)
  have c: "\<lceil>1 / (1600 / 16201 :: real)\<rceil> = 11"
    by simp
  from C5_timestep_selection[OF h(1) h(1) h(2) h(3) h(4) h(5) h(6)]
  have "calculate_optimal_dt 10 10 2 15 0.001 0.8 = Inr (1600 / 16201)
   \<and> driver_dt (1600 / 16201) = Inr (1 / 11)"
    unfolding Let_def v c by simp
  then show ?thesis
    by (simp add: run_sim_dt_def)
qed


section \<open>Properties of the diffusion solver\<close>



text \<open>
  C3. After every call of the solver step (any input field, any sources, positive cell
  sizes, any diffusion coefficient, decay rate and timestep) the call returns and every
  cell of the returned field holds at least
  \<open>default_value * (cell_len_x * cell_len_y * cell_len_z)\<close>.
\<close>

theorem C3_floor_after_step:
  assumes "valid_grid cfg" "0 < cell_len_x" "0 < cell_len_y" "0 < cell_len_z"
    and "length y_vec = length x_vec" "length emission_vec = length x_vec"
  shows "\<exists>new. process_gas_step cfg old_matrix x_vec y_vec emission_vec cell_len_x cell_len_y cell_len_z
                 default_value diffusion_coeff decay_rate dt = Inr new
          \<and> (\<forall>idx. in_grid3 cfg idx \<longrightarrow>
                 default_value * (cell_len_x * cell_len_y * cell_len_z) \<le> new idx)"
proof -
  from assms(1) have d: "GRID_DIM_X cfg \<noteq> 0" "GRID_DIM_Y cfg \<noteq> 0"
    by (simp_all add: valid_grid_def)
  from assms(2-4) have l: "cell_len_x \<noteq> 0" "cell_len_y \<noteq> 0" "cell_len_z \<noteq> 0"
    by simp_all
  from process_gas_step_cells[OF l d assms(5), of old_matrix emission_vec default_value
      diffusion_coeff decay_rate dt]
  obtain new padded2 where
    r: "process_gas_step cfg old_matrix x_vec y_vec emission_vec cell_len_x cell_len_y cell_len_z
          default_value diffusion_coeff decay_rate dt = Inr new"
    and c: "\<And>q. in_grid3 cfg q \<Longrightarrow>
          new q = max (default_value * (cell_len_x * cell_len_y * cell_len_z))
            (old_matrix q + injected cfg x_vec y_vec emission_vec q +
             (dt * (cell_len_x * cell_len_y * cell_len_z) *
              diff_change padded2
               (diffusion_coeff / (cell_len_x * cell_len_x))
               (diffusion_coeff / (cell_len_y * cell_len_y))
               (diffusion_coeff / (cell_len_z * cell_len_z)) q -
              dt * decay_rate * (old_matrix q + injected cfg x_vec y_vec emission_vec q)))"
    by blast
  have "default_value * (cell_len_x * cell_len_y * cell_len_z) \<le> new idx" if "in_grid3 cfg idx" for idx
    unfolding c[OF that] by (rule max.cobounded1)
  with r show ?thesis by blast
qed

theorem C3_witness:
  "cell_of (process_gas_step erstfeld (full3 40) [16855] [35005] [3] 10 10 2 0.2 5 0.001 0.1) (0, 0, 0) \<noteq> None
   \<and> Some (0.2 * (10 * 10 * 2))
       \<le> cell_of (process_gas_step erstfeld (full3 40) [16855] [35005] [3] 10 10 2 0.2 5 0.001 0.1) (0, 0, 0)"
proof -
  have g: "valid_grid erstfeld" "in_grid3 erstfeld (0, 0, 0)"
    by (simp_all add: valid_grid_def in_grid3_def erstfeld_def)
  have "\<exists>new. process_gas_step erstfeld (full3 40) [16855] [35005] [3] 10 10 2 0.2 5 0.001 0.1 = Inr new
          \<and> (\<forall>idx. in_grid3 erstfeld idx \<longrightarrow> 0.2 * (10 * 10 * 2) \<le> new idx)"
    by (rule C3_floor_after_step[OF g(1)]) simp_all
  with g(2) show ?thesis
    by (auto simp: cell_of_def less_eq_option_def)
qed



lemma erstfeld_source_idx:
  "x_idx_of erstfeld 16855 = 0" "y_idx_of erstfeld 35005 = 0"
  by (simp_all add: x_idx_of_def y_idx_of_def cell_dim_x_def cell_dim_y_def erstfeld_def py_int_def)

lemma erstfeld_grid: "valid_grid erstfeld" "in_grid3 erstfeld (0, 0, 0)"
  by (simp_all add: valid_grid_def in_grid3_def erstfeld_def)





section \<open>Properties of the noise model\<close>

lemma noise_cell_other:
  "p \<noteq> q \<Longrightarrow> noise_cell Lw lx ly radius xi yi p m q = m q"
  by (simp add: noise_cell_def Let_def)

lemma fold_noise_cell:
  "fold (noise_cell Lw lx ly radius xi yi) (range2 a b c d) m q
   = (if q \<in> set (range2 a b c d) \<and> \<not> dist_squared_m lx ly xi yi q > radius * radius
      then m q + linear_contribution Lw (dist_squared_m lx ly xi yi q)
      else m q)"
proof -
  have "fold (noise_cell Lw lx ly radius xi yi) (range2 a b c d) m q
   = (if q \<in> set (range2 a b c d)
      then (\<lambda>p v. if dist_squared_m lx ly xi yi p > radius * radius then v
                   else v + linear_contribution Lw (dist_squared_m lx ly xi yi p)) q (m q)
      else m q)"
    by (rule fold_pointwise) (simp_all add: noise_cell_other noise_cell_def Let_def distinct_range2)
  then show ?thesis by simp
qed

lemma py_int_nonneg: "0 \<le> x \<Longrightarrow> 0 \<le> py_int x"
  by (simp add: py_int_def)

lemma source_power: "10 powr ((Lw - 10 * log 10 (4 * pi)) / 10) = 10 powr (Lw / 10) / (4 * pi)"
proof -
  have "(Lw - 10 * log 10 (4 * pi)) / 10 = Lw / 10 - log 10 (4 * pi)"
    by (simp add: field_simps)
  then have "10 powr ((Lw - 10 * log 10 (4 * pi)) / 10) = 10 powr (Lw / 10) / 10 powr (log 10 (4 * pi))"
    by (simp only: powr_diff)
  also have "10 powr (log 10 (4 * pi)) = 4 * pi"
    by (rule powr_log_cancel) simp_all
  finally show ?thesis .
qed

lemma process_noise_source_cell:
  assumes g: "valid_grid cfg" and l: "0 < lx" "0 < ly" and r: "0 \<le> radius"
    and x: "0 \<le> x_idx_of cfg x" "x_idx_of cfg x < GRID_DIM_X cfg"
    and y: "0 \<le> y_idx_of cfg y" "y_idx_of cfg y < GRID_DIM_Y cfg"
  shows "cell_of (process_noise cfg [x] [y] [level] lx ly radius bg) (x_idx_of cfg x, y_idx_of cfg y)
         = Some (10 * log 10 (10 powr (bg / 10) + 10 powr (max level bg / 10) / (4 * pi)))"
proof -
  let ?xi = "x_idx_of cfg x" and ?yi = "y_idx_of cfg y"
  have cd: "cell_dim_x cfg \<noteq> 0" "cell_dim_y cfg \<noteq> 0" "GRID_DIM_X cfg \<noteq> 0" "GRID_DIM_Y cfg \<noteq> 0"
    using g by (simp_all add: valid_grid_def cell_dim_x_def cell_dim_y_def)
  have k: "0 \<le> py_int (radius / lx)" "0 \<le> py_int (radius / ly)"
    using l r by (simp_all add: py_int_nonneg)
  have mem: "(?xi, ?yi) \<in> set (range2 (max 0 (?xi - py_int (radius / lx)))
                (min (GRID_DIM_X cfg) (?xi + py_int (radius / lx) + 1))
                (max 0 (?yi - py_int (radius / ly)))
                (min (GRID_DIM_Y cfg) (?yi + py_int (radius / ly) + 1)))"
    using k x y by (simp add: set_range2)
  have d0: "dist_squared_m lx ly ?xi ?yi (?xi, ?yi) = 0"
    by (simp add: dist_squared_m_def)
  have c: "linear_contribution Lw 0 = 10 powr (Lw / 10) / (4 * pi)" for Lw
    by (simp add: linear_contribution_def source_power)
  show ?thesis
    using cd l mem x y r
    by (simp add: process_noise_def noise_source_def Let_def cell_of_def fold_noise_cell d0 c)
qed

text \<open>
  C2, as amended. For a single source whose grid index lies in the grid (positive cell
  lengths, a radius that is not negative), the cell with the source's index, which is
  at distance 0 from it, gets the level
  \<open>10 * log10 (10 ^ (background_dB / 10) + 10 ^ (max source_level background_dB / 10) / (4 * pi))\<close>:
  the source is spread over the sphere of the 1-metre floor, about 11 dB below its own
  level, and added to the background in linear power.
\<close>

theorem C2_noise_at_source_cell:
  assumes "valid_grid cfg" "0 < cell_len_x" "0 < cell_len_y" "0 \<le> radius"
    and "0 \<le> x_idx_of cfg x" "x_idx_of cfg x < GRID_DIM_X cfg"
    and "0 \<le> y_idx_of cfg y" "y_idx_of cfg y < GRID_DIM_Y cfg"
  shows "cell_of (process_noise cfg [x] [y] [source_level] cell_len_x cell_len_y radius background_dB)
           (x_idx_of cfg x, y_idx_of cfg y)
         = Some (10 * log 10 (10 powr (background_dB / 10)
                              + 10 powr (max source_level background_dB / 10) / (4 * pi)))"
  using assms by (rule process_noise_source_cell)

theorem C2_witness:
  "cell_of (process_noise erstfeld [16855] [35005] [20] 10 10 500 30) (0, 0)
   = Some (10 * log 10 (10 powr (30 / 10) + 10 powr (max 20 30 / 10) / (4 * pi)))"
proof -
  have d: "(0::int) < GRID_DIM_X erstfeld" "(0::int) < GRID_DIM_Y erstfeld"
    by (simp_all add: erstfeld_def)
  have "cell_of (process_noise erstfeld [16855] [35005] [20] 10 10 500 30)
          (x_idx_of erstfeld 16855, y_idx_of erstfeld 35005)
        = Some (10 * log 10 (10 powr (30 / 10) + 10 powr (max 20 30 / 10) / (4 * pi)))"
    by (rule C2_noise_at_source_cell[OF erstfeld_grid(1)])
       (simp_all add: erstfeld_source_idx d)
  then show ?thesis
    by (simp only: erstfeld_source_idx)
qed

lemma loud_source_level:
  "10 * log 10 (10 powr (30 / 10) + 10 powr (80 / 10) / (4 * pi)) < 75"
proof -
  have "(10::real) ^ 8 / (4 * pi) \<le> 10 ^ 8 / (4 * 2)"
    using pi_ge_two by (intro divide_left_mono) simp_all
  then have a: "(10::real) powr 3 + 10 powr 8 / (4 * pi) < 3 * 10 ^ 7"
    by simp
  have "(3::real) \<le> sqrt 10"
    by (rule real_le_rsqrt) simp
  then have "3 * 10 ^ 7 \<le> (10::real) powr 7 * 10 powr (1 / 2)"
    by (simp add: powr_half_sqrt)
  also have "\<dots> = 10 powr (7 + 1 / 2)"
    by (simp only: powr_add)
  also have "(7 + 1 / 2 :: real) = 15 / 2"
    by simp
  finally have b: "(10::real) powr 3 + 10 powr 8 / (4 * pi) < 10 powr (15 / 2)"
    using a by simp
  have p: "(0::real) < 10 powr 3 + 10 powr 8 / (4 * pi)"
    by (simp add: add_pos_pos)
  have "log 10 (10 powr 3 + 10 powr 8 / (4 * pi)) < 15 / 2"
    using b by (subst log_less_iff[OF _ p]) simp_all
  then show ?thesis by simp
qed

theorem C2_counterexample:
  "cell_of (process_noise erstfeld [16855] [35005] [80] 10 10 500 30) (0, 0)
     = Some (10 * log 10 (10 powr (30 / 10) + 10 powr (80 / 10) / (4 * pi)))
   \<and> 10 * log 10 (10 powr (30 / 10) + 10 powr (80 / 10) / (4 * pi)) < max 80 30 - 5"
proof -
  have d: "(0::int) < GRID_DIM_X erstfeld" "(0::int) < GRID_DIM_Y erstfeld"
    by (simp_all add: erstfeld_def)
  have "cell_of (process_noise erstfeld [16855] [35005] [80] 10 10 500 30)
          (x_idx_of erstfeld 16855, y_idx_of erstfeld 35005)
        = Some (10 * log 10 (10 powr (30 / 10) + 10 powr (max 80 30 / 10) / (4 * pi)))"
    by (rule process_noise_source_cell[OF erstfeld_grid(1)])
       (simp_all add: erstfeld_source_idx d)
  then have "cell_of (process_noise erstfeld [16855] [35005] [80] 10 10 500 30) (0, 0)
        = Some (10 * log 10 (10 powr (30 / 10) + 10 powr (80 / 10) / (4 * pi)))"
    by (simp add: erstfeld_source_idx)
  with loud_source_level show ?thesis
    by simp
qed


section \<open>Properties of the snapshot statistics\<close>

subsection \<open>Moving averages\<close>

lemma foldE_collect:
  assumes "\<And>x. x \<in> set xs \<Longrightarrow> f x = Inr (g x)"
  shows "foldE (\<lambda>x saved. case f x of Inl e \<Rightarrow> Inl e | Inr s \<Rightarrow> Inr (saved @ s)) xs acc
         = Inr (acc @ concat (map g xs))"
  using assms by (induction xs arbitrary: acc) simp_all

lemma foldE_window_sum:
  assumes "set ws \<subseteq> fst ` set td"
  shows "foldE (\<lambda>t (window_sum, count).
                  case map_of td t of
                    None \<Rightarrow> Inl KeyError
                  | Some a \<Rightarrow> Inr (\<lambda>idx. window_sum idx + a idx, count + 1))
           ws (s0, c0 :: int)
         = Inr (\<lambda>idx. s0 idx + sum_list (map (\<lambda>t. the (map_of td t) idx) ws), c0 + int (length ws))"
  using assms
proof (induction ws arbitrary: s0 c0)
  case Nil
  then show ?case by simp
next
  case (Cons t ws)
  from Cons.prems have "t \<in> fst ` set td" by simp
  then have "map_of td t \<noteq> None"
    by (simp add: map_of_eq_None_iff)
  then obtain a where a: "map_of td t = Some a"
    by blast
  from Cons.prems have "set ws \<subseteq> fst ` set td" by simp
  from Cons.IH[OF this] a show ?case
    by (simp add: add.assoc)
qed

lemma moving_average_at_list:
  assumes "set timestamps \<subseteq> fst ` set td"
  shows "moving_average_at data_key timestamps td w mp name label t
         = Inr (let W = filter (\<lambda>u. t \<le> u \<and> u < t + w) timestamps
                in if mp \<le> int (length W)
                   then [(data_key,
                          ''_'' @ name @ ''_avg_'' @ label @ str_int (py_int (real_of_int t / 3600)) @ ''.csv'',
                          \<lambda>idx. sum_list (map (\<lambda>u. the (map_of td u) idx) W) / real (length W))]
                   else [])"
proof -
  let ?W = "filter (\<lambda>u. t \<le> u \<and> u < t + w) timestamps"
  have "set ?W \<subseteq> fst ` set td" using assms by auto
  from foldE_window_sum[OF this, of zeros2 0]
  show ?thesis
    by (simp add: moving_average_at_def Let_def zeros2_def)
qed













subsection \<open>Overall statistics\<close>

lemma calculate_moving_average_for_window_returns:
  "\<exists>s. calculate_moving_average_for_window data_key (sort (map fst td)) td w mp name label = Inr s
       \<and> (\<forall>x \<in> set s. fst x = data_key)"
proof -
  have sub: "set (sort (map fst td)) \<subseteq> fst ` set td" by simp
  let ?g = "\<lambda>t. let W = filter (\<lambda>u. t \<le> u \<and> u < t + w) (sort (map fst td))
                in if mp \<le> int (length W)
                   then [(data_key,
                          ''_'' @ name @ ''_avg_'' @ label @ str_int (py_int (real_of_int t / 3600)) @ ''.csv'',
                          \<lambda>idx. sum_list (map (\<lambda>u. the (map_of td u) idx) W) / real (length W))]
                   else []"
  have "calculate_moving_average_for_window data_key (sort (map fst td)) td w mp name label
        = Inr ([] @ concat (map ?g (sort (map fst td))))"
    unfolding calculate_moving_average_for_window_def
    by (rule foldE_collect) (rule moving_average_at_list[OF sub])
  moreover have "\<forall>x \<in> set ([] @ concat (map ?g (sort (map fst td)))). fst x = data_key"
    by (auto simp: Let_def split: if_splits)
  ultimately show ?thesis by blast
qed

lemma calculate_moving_averages_returns:
  "\<exists>s. calculate_moving_averages data_key td = Inr s \<and> (\<forall>x \<in> set s. fst x = data_key)"
proof -
  have "\<forall>x. \<exists>s. (case x of (name, w, mp, label) \<Rightarrow>
                 calculate_moving_average_for_window data_key (sort (map fst td)) td w mp name label)
              = Inr s \<and> (\<forall>y \<in> set s. fst y = data_key)"
    using calculate_moving_average_for_window_returns by (auto split: prod.splits)
  then have "\<exists>h. \<forall>x. (case x of (name, w, mp, label) \<Rightarrow>
                 calculate_moving_average_for_window data_key (sort (map fst td)) td w mp name label)
              = Inr (h x) \<and> (\<forall>y \<in> set (h x). fst y = data_key)"
    by (rule choice)
  then obtain h where
    h: "\<And>x. (case x of (name, w, mp, label) \<Rightarrow>
                 calculate_moving_average_for_window data_key (sort (map fst td)) td w mp name label)
              = Inr (h x)"
    and k: "\<And>x y. y \<in> set (h x) \<Longrightarrow> fst y = data_key"
    by blast
  have loop: "foldE (\<lambda>x saved.
                 case (case x of (name, w, mp, label) \<Rightarrow>
                         calculate_moving_average_for_window data_key (sort (map fst td)) td w mp name label) of
                   Inl e \<Rightarrow> Inl e
                 | Inr s \<Rightarrow> Inr (saved @ s)) windows []
              = Inr ([] @ concat (map h windows))"
    by (rule foldE_collect) (rule h)
  have same: "(\<lambda>(window_name, window_size, min_points, time_label) saved.
                       case calculate_moving_average_for_window data_key (sort (map fst td)) td
                              window_size min_points window_name time_label of
                         Inl e \<Rightarrow> Inl e
                       | Inr s \<Rightarrow> Inr (saved @ s))
        = (\<lambda>x saved.
                 case (case x of (name, w, mp, label) \<Rightarrow>
                         calculate_moving_average_for_window data_key (sort (map fst td)) td w mp name label) of
                   Inl e \<Rightarrow> Inl e
                 | Inr s \<Rightarrow> Inr (saved @ s))"
    by (simp add: fun_eq_iff split: prod.splits)
  have keys: "\<forall>x \<in> set (concat (map h windows)). fst x = data_key"
    using k by auto
  show ?thesis
  proof (cases "length (sort (map fst td)) = 0")
    case True
    then show ?thesis by (simp add: calculate_moving_averages_def)
  next
    case False
    then have "calculate_moving_averages data_key td = Inr (concat (map h windows))"
      unfolding calculate_moving_averages_def Let_def same loop by simp
    with keys show ?thesis by blast
  qed
qed





lemma fold_statistics_step_eq:
  "fold statistics_step xs (td, mx, mn, sm)
   = (fold (\<lambda>e. AList.update (snd e) (content (fst e))) xs td,
      (\<lambda>idx. fold (\<lambda>e m. max m (content (fst e) idx)) xs (mx idx)),
      (\<lambda>idx. fold (\<lambda>e m. minimum_pyfloat m (content (fst e) idx)) xs (mn idx)),
      (\<lambda>idx. fold (\<lambda>e s. s + content (fst e) idx) xs (sm idx)))"
  by (induction xs arbitrary: td mx mn sm) (simp_all add: statistics_step_def split_beta Let_def)













subsection \<open>Grouping the files\<close>

lemma round_to_hour_div_mod:
  "round_to_hour t
   = 3600 * (if t mod 3600 < 1800 then t div 3600
             else if 1800 < t mod 3600 then t div 3600 + 1
             else if even (t div 3600) then t div 3600 else t div 3600 + 1)"
proof -
  have f: "\<lfloor>real_of_int t / 3600\<rfloor> = t div 3600"
    using floor_divide_of_int_eq[of t 3600, where ?'a = real] by simp
  have "real_of_int (3600 * (t div 3600) + t mod 3600) = real_of_int t"
    by (simp only: mult_div_mod_eq)
  then have e: "real_of_int t = 3600 * real_of_int (t div 3600) + real_of_int (t mod 3600)"
    by (simp only: of_int_add of_int_mult of_int_numeral)
  have d: "real_of_int t / 3600 - real_of_int (t div 3600) = real_of_int (t mod 3600) / 3600"
    by (subst e) (simp add: field_simps)
  have lt: "real_of_int (t mod 3600) / 3600 < 1 / 2 \<longleftrightarrow> t mod 3600 < 1800"
    by (simp add: field_simps)
  have gt: "1 / 2 < real_of_int (t mod 3600) / 3600 \<longleftrightarrow> 1800 < t mod 3600"
    by (simp add: field_simps)
  show ?thesis
    unfolding round_to_hour_def py_round_def Let_def f d lt gt by simp
qed

lemma round_to_hour_nearest:
  "3600 dvd round_to_hour t" "\<bar>t - round_to_hour t\<bar> \<le> \<bar>t - 3600 * k\<bar>"
proof -
  show "3600 dvd round_to_hour t"
    unfolding round_to_hour_div_mod by (rule dvd_triv_left)
  define q where "q = t div 3600"
  define r where "r = t mod 3600"
  have t': "t = 3600 * q + r" and r: "0 \<le> r" "r < 3600"
    by (simp_all add: q_def r_def)
  have rt: "round_to_hour t = 3600 * (if r < 1800 then q else if 1800 < r then q + 1
                                       else if even q then q else q + 1)"
    unfolding round_to_hour_div_mod q_def r_def ..
  have main: "\<bar>(3600 * q + r) - 3600 * (if r < 1800 then q else if 1800 < r then q + 1
                                       else if even q then q else q + 1)\<bar>
              \<le> \<bar>(3600 * q + r) - 3600 * k\<bar>"
    using r by (cases "k \<le> q") (auto split: if_splits)
  have "\<bar>t - round_to_hour t\<bar> = \<bar>(3600 * q + r) - 3600 * (if r < 1800 then q else if 1800 < r then q + 1
                                       else if even q then q else q + 1)\<bar>"
    by (subst rt, subst t') (rule refl)
  moreover have "\<bar>t - 3600 * k\<bar> = \<bar>(3600 * q + r) - 3600 * k\<bar>"
    by (subst t') (rule refl)
  ultimately show "\<bar>t - round_to_hour t\<bar> \<le> \<bar>t - 3600 * k\<bar>"
    using main by (simp only:)
qed



lemma set_update_cases:
  "(k', v') \<in> set (AList.update k v al) \<Longrightarrow> (k' = k \<and> v' = v) \<or> (k', v') \<in> set al"
  by (induction al) (auto split: if_splits)

lemma store_snapshot_unparsed:
  "int_of_string timestamp_str = None \<Longrightarrow> store_snapshot file data_key timestamp_str dts = dts"
  by (simp add: store_snapshot_def)

lemma store_snapshot_dropped:
  "int_of_string timestamp_str = Some t \<Longrightarrow> round_to_hour t < 0 \<or> 86400 < round_to_hour t \<Longrightarrow>
   store_snapshot file data_key timestamp_str dts = dts"
  by (simp add: store_snapshot_def Let_def)

lemma store_snapshot_kept:
  "int_of_string timestamp_str = Some t \<Longrightarrow> 0 \<le> round_to_hour t \<Longrightarrow> round_to_hour t \<le> 86400 \<Longrightarrow>
   store_snapshot file data_key timestamp_str dts
   = AList.update data_key
       ((case map_of dts data_key of None \<Rightarrow> [] | Some l \<Rightarrow> l) @ [(file, round_to_hour t)]) dts"
  by (simp add: store_snapshot_def Let_def split: option.splits)

lemma store_snapshot_inv:
  assumes "\<forall>(key, fd) \<in> set dts. fd \<noteq> [] \<and> (\<forall>(f, t) \<in> set fd. 0 \<le> t \<and> t \<le> 86400 \<and> 3600 dvd t)"
  shows "\<forall>(key, fd) \<in> set (store_snapshot file data_key timestamp_str dts).
           fd \<noteq> [] \<and> (\<forall>(f, t) \<in> set fd. 0 \<le> t \<and> t \<le> 86400 \<and> 3600 dvd t)"
proof (cases "int_of_string timestamp_str")
  case None
  with assms show ?thesis by (simp add: store_snapshot_unparsed)
next
  case (Some t)
  show ?thesis
  proof (cases "0 \<le> round_to_hour t \<and> round_to_hour t \<le> 86400")
    case False
    then have "round_to_hour t < 0 \<or> 86400 < round_to_hour t" by linarith
    with assms Some show ?thesis by (simp add: store_snapshot_dropped)
  next
    case True
    let ?l = "case map_of dts data_key of None \<Rightarrow> [] | Some l \<Rightarrow> l"
    have l: "\<forall>(f, t) \<in> set ?l. 0 \<le> t \<and> t \<le> 86400 \<and> 3600 dvd t"
    proof (cases "map_of dts data_key")
      case None
      then show ?thesis by simp
    next
      case (Some l)
      then have "(data_key, l) \<in> set dts" by (rule map_of_SomeD)
      with assms Some show ?thesis by auto
    qed
    have eq: "store_snapshot file data_key timestamp_str dts
              = AList.update data_key (?l @ [(file, round_to_hour t)]) dts"
      using Some True by (simp add: store_snapshot_kept)
    show ?thesis
      unfolding eq
    proof (clarify)
      fix key fd
      assume "(key, fd) \<in> set (AList.update data_key (?l @ [(file, round_to_hour t)]) dts)"
      then consider "fd = ?l @ [(file, round_to_hour t)]" | "(key, fd) \<in> set dts"
        using set_update_cases by fastforce
      then show "fd \<noteq> [] \<and> (\<forall>(f, t) \<in> set fd. 0 \<le> t \<and> t \<le> 86400 \<and> 3600 dvd t)"
      proof cases
        case 1
        with l True round_to_hour_nearest(1)[of t] show ?thesis by auto
      next
        case 2
        with assms show ?thesis by auto
      qed
    qed
  qed
qed

lemma group_files_inv:
  assumes "group_files files dts = Inr dts'"
    and "\<forall>(key, fd) \<in> set dts. fd \<noteq> [] \<and> (\<forall>(f, t) \<in> set fd. 0 \<le> t \<and> t \<le> 86400 \<and> 3600 dvd t)"
  shows "\<forall>(key, fd) \<in> set dts'. fd \<noteq> [] \<and> (\<forall>(f, t) \<in> set fd. 0 \<le> t \<and> t \<le> 86400 \<and> 3600 dvd t)"
  using assms
proof (induction files arbitrary: dts)
  case Nil
  then show ?case by simp
next
  case (Cons fl files)
  show ?case
  proof (cases "parse_filename (filename fl)")
    case (Snapshot data_key timestamp_str)
    with Cons.prems(1) have "group_files files (store_snapshot fl data_key timestamp_str dts) = Inr dts'"
      by simp
    then show ?thesis
      by (rule Cons.IH) (rule store_snapshot_inv[OF Cons.prems(2)])
  next
    case Other_height
    with Cons.prems(1) have "group_files files dts = Inr dts'" by simp
    then show ?thesis by (rule Cons.IH) (rule Cons.prems(2))
  next
    case Bad_height
    with Cons.prems(1) show ?thesis by simp
  next
    case Break
    with Cons.prems show ?thesis by simp
  qed
qed

lemma calculate_statistics_returns:
  "\<exists>s. calculate_statistics data_key file_data = Inr s \<and> (\<forall>x \<in> set s. fst x = data_key)"
proof -
  obtain mx mn av df td where st: "statistics_arrays file_data = (mx, mn, av, df, td)"
    by (cases "statistics_arrays file_data") auto
  from calculate_moving_averages_returns[of data_key td] obtain s where
    "calculate_moving_averages data_key td = Inr s" "\<forall>x \<in> set s. fst x = data_key"
    by blast
  then show ?thesis
    by (simp add: calculate_statistics_def st)
qed

lemma process_data_statistics_returns:
  assumes "group_files files [] = Inr dts"
  shows "\<exists>out. process_data_statistics files = Inr out \<and> (\<forall>x \<in> set out. fst x \<in> fst ` set dts)"
proof -
  have "\<forall>x. \<exists>s. (case x of (data_key, file_data) \<Rightarrow> calculate_statistics data_key file_data) = Inr s
                \<and> (\<forall>y \<in> set s. fst y = fst x)"
    using calculate_statistics_returns by (auto split: prod.splits)
  then have "\<exists>h. \<forall>x. (case x of (data_key, file_data) \<Rightarrow> calculate_statistics data_key file_data) = Inr (h x)
                \<and> (\<forall>y \<in> set (h x). fst y = fst x)"
    by (rule choice)
  then obtain h where
    h: "\<And>x. (case x of (data_key, file_data) \<Rightarrow> calculate_statistics data_key file_data) = Inr (h x)"
    and k: "\<And>x y. y \<in> set (h x) \<Longrightarrow> fst y = fst x"
    by blast
  have loop: "foldE (\<lambda>x saved.
                 case (case x of (data_key, file_data) \<Rightarrow> calculate_statistics data_key file_data) of
                   Inl e \<Rightarrow> Inl e
                 | Inr s \<Rightarrow> Inr (saved @ s)) dts []
              = Inr ([] @ concat (map h dts))"
    by (rule foldE_collect) (rule h)
  have same: "(\<lambda>(data_key, file_data) saved.
                   case calculate_statistics data_key file_data of
                     Inl e \<Rightarrow> Inl e
                   | Inr s \<Rightarrow> Inr (saved @ s))
        = (\<lambda>x saved.
                 case (case x of (data_key, file_data) \<Rightarrow> calculate_statistics data_key file_data) of
                   Inl e \<Rightarrow> Inl e
                 | Inr s \<Rightarrow> Inr (saved @ s))"
    by (simp add: fun_eq_iff split: prod.splits)
  have "process_data_statistics files = Inr (concat (map h dts))"
    unfolding process_data_statistics_def assms same using loop by simp
  moreover have "\<forall>x \<in> set (concat (map h dts)). fst x \<in> fst ` set dts"
    using k by force
  ultimately show ?thesis by blast
qed


lemma group_files_returns:
  assumes "\<forall>f \<in> set files. parse_filename (filename f) \<noteq> Bad_height"
  shows "\<exists>dts'. group_files files dts = Inr dts'"
  using assms
proof (induction files arbitrary: dts)
  case Nil
  then show ?case by simp
next
  case (Cons fl files)
  then have rest: "\<forall>f \<in> set files. parse_filename (filename f) \<noteq> Bad_height"
    and hd: "parse_filename (filename fl) \<noteq> Bad_height"
    by simp_all
  show ?case
  proof (cases "parse_filename (filename fl)")
    case (Snapshot data_key timestamp_str)
    with Cons.IH[OF rest, of "store_snapshot fl data_key timestamp_str dts"] show ?thesis by simp
  next
    case Other_height
    with Cons.IH[OF rest, of dts] show ?thesis by simp
  next
    case Bad_height
    with hd show ?thesis by simp
  next
    case Break
    then show ?thesis by simp
  qed
qed

text \<open>
  The dict \<^verbatim>\<open>calculate_statistics\<close> hands to the moving averages has one entry for each
  timestamp of the key's snapshots; with the invariant of the grouping above, these
  timestamps are not negative.
\<close>

lemma fold_update_keys:
  assumes "distinct (map fst td)"
  shows "distinct (map fst (fold (\<lambda>e. AList.update (snd e) (content (fst e))) xs td))"
    and "fst ` set (fold (\<lambda>e. AList.update (snd e) (content (fst e))) xs td) = snd ` set xs \<union> fst ` set td"
  using assms
proof (induction xs arbitrary: td)
  case Nil
  {
    case 1 then show ?case by simp
  next
    case 2 then show ?case by simp
  }
next
  case (Cons x xs)
  {
    case 1
    then have "distinct (map fst (AList.update (snd x) (content (fst x)) td))"
      by (rule distinct_update)
    from Cons.IH(1)[OF this] show ?case by simp
  next
    case 2
    then have "distinct (map fst (AList.update (snd x) (content (fst x)) td))"
      by (rule distinct_update)
    from Cons.IH(2)[OF this] show ?case by (simp add: dom_update)
  }
qed

lemma statistics_timestamp_data:
  assumes "statistics_arrays file_data = (max_array, min_array, avg_array, diff_array, td)"
  shows "distinct (map fst td)" and "fst ` set td = snd ` set file_data"
proof -
  have td: "td = fold (\<lambda>e. AList.update (snd e) (content (fst e))) (sort_key snd file_data) []"
    using assms by (simp add: statistics_arrays_def Let_def fold_statistics_step_eq)
  show "distinct (map fst td)"
    unfolding td by (rule fold_update_keys(1)) simp
  show "fst ` set td = snd ` set file_data"
    unfolding td by (subst fold_update_keys(2)) simp_all
qed

text \<open>
  C9. In the grouping of the input files: the parsed timestamp is rounded to a nearest
  multiple of 3600 (no multiple of 3600 is closer) before anything else is done with it;
  a snapshot whose rounded timestamp lies outside \<open>[0, 86400]\<close> is skipped and the loop
  goes on with the remaining files as if it were absent, while one inside is appended
  with its rounded timestamp to the list of its key; and whenever the grouping returns,
  every key it holds has at least one snapshot (all with timestamps in \<open>[0, 86400]\<close>),
  the run returns, and every file it saves belongs to one of these keys, so that a key
  without snapshots produces no output. The run returns for every list of files none of
  whose names has an unreadable height, whatever their timestamps.
\<close>

theorem C9_grouping_rounds_and_drops:
  "(\<forall>t k. 3600 dvd round_to_hour t \<and> \<bar>t - round_to_hour t\<bar> \<le> \<bar>t - 3600 * k\<bar>)
   \<and> (\<forall>file files dts data_key timestamp_str t.
         parse_filename (filename file) = Snapshot data_key timestamp_str \<longrightarrow>
         int_of_string timestamp_str = Some t \<longrightarrow>
           (round_to_hour t < 0 \<or> 86400 < round_to_hour t \<longrightarrow>
              group_files (file # files) dts = group_files files dts)
           \<and> (0 \<le> round_to_hour t \<and> round_to_hour t \<le> 86400 \<longrightarrow>
                group_files (file # files) dts
                = group_files files
                    (AList.update data_key
                       ((case map_of dts data_key of None \<Rightarrow> [] | Some l \<Rightarrow> l)
                        @ [(file, round_to_hour t)]) dts)))
   \<and> (\<forall>files dts.
         group_files files [] = Inr dts \<longrightarrow>
           (\<forall>(key, fd) \<in> set dts.
               fd \<noteq> [] \<and> (\<forall>(f, t) \<in> set fd. 0 \<le> t \<and> t \<le> 86400 \<and> 3600 dvd t))
           \<and> (\<exists>out. process_data_statistics files = Inr out
                      \<and> (\<forall>s \<in> set out. fst s \<in> fst ` set dts)))
   \<and> (\<forall>files.
         (\<forall>f \<in> set files. parse_filename (filename f) \<noteq> Bad_height) \<longrightarrow>
           (\<exists>out. process_data_statistics files = Inr out))"
proof (intro conjI allI impI)
  fix t k :: int
  show "3600 dvd round_to_hour t" by (rule round_to_hour_nearest(1))
  show "\<bar>t - round_to_hour t\<bar> \<le> \<bar>t - 3600 * k\<bar>" by (rule round_to_hour_nearest(2))
next
  fix fl :: snapshot_file and files dts data_key timestamp_str t
  assume p: "parse_filename (filename fl) = Snapshot data_key timestamp_str"
    and i: "int_of_string timestamp_str = Some t"
  {
    assume "round_to_hour t < 0 \<or> 86400 < round_to_hour t"
    then show "group_files (fl # files) dts = group_files files dts"
      using p i by (simp add: store_snapshot_dropped)
  }
  {
    assume "0 \<le> round_to_hour t \<and> round_to_hour t \<le> 86400"
    then show "group_files (fl # files) dts
                = group_files files
                    (AList.update data_key
                       ((case map_of dts data_key of None \<Rightarrow> [] | Some l \<Rightarrow> l)
                        @ [(fl, round_to_hour t)]) dts)"
      using p i by (simp add: store_snapshot_kept)
  }
next
  fix files dts
  assume g: "group_files files [] = Inr dts"
  show "\<forall>(key, fd) \<in> set dts.
               fd \<noteq> [] \<and> (\<forall>(f, t) \<in> set fd. 0 \<le> t \<and> t \<le> 86400 \<and> 3600 dvd t)"
    by (rule group_files_inv[OF g]) simp
  show "\<exists>out. process_data_statistics files = Inr out \<and> (\<forall>s \<in> set out. fst s \<in> fst ` set dts)"
    by (rule process_data_statistics_returns[OF g])
next
  fix files :: "snapshot_file list"
  assume "\<forall>f \<in> set files. parse_filename (filename f) \<noteq> Bad_height"
  from group_files_returns[OF this, of "[]"] obtain dts where "group_files files [] = Inr dts"
    by blast
  from process_data_statistics_returns[OF this]
  show "\<exists>out. process_data_statistics files = Inr out" by blast
qed

theorem C9_witness:
  "group_files [\<lparr>filename = ''data_nox_1_90000.csv'', content = zeros2\<rparr>,
                \<lparr>filename = ''data_co_1_3000.0.csv'', content = zeros2\<rparr>] []
     = Inr [(''data_co'', [(\<lparr>filename = ''data_co_1_3000.0.csv'', content = zeros2\<rparr>, 3600)])]
   \<and> \<bar>3000 - round_to_hour 3000\<bar> \<le> \<bar>3000 - 3600 * 0\<bar>
   \<and> (\<exists>out. process_data_statistics [\<lparr>filename = ''data_nox_1_90000.csv'', content = zeros2\<rparr>,
                                         \<lparr>filename = ''data_co_1_3000.0.csv'', content = zeros2\<rparr>]
               = Inr out
             \<and> ''data_nox'' \<notin> fst ` set out)"
proof -
  let ?nox = "\<lparr>filename = ''data_nox_1_90000.csv'', content = zeros2\<rparr>"
  let ?co = "\<lparr>filename = ''data_co_1_3000.0.csv'', content = zeros2\<rparr>"
  note c9 = C9_grouping_rounds_and_drops
  note rounds = c9[THEN conjunct1, rule_format]
  note files = c9[THEN conjunct2, THEN conjunct1, rule_format]
  note keys = c9[THEN conjunct2, THEN conjunct2, THEN conjunct1, rule_format]
  have pn: "parse_filename (filename ?nox) = Snapshot ''data_nox'' ''90000''"
    and pc: "parse_filename (filename ?co) = Snapshot ''data_co'' ''3000''"
    by (simp_all add: parse_filename_def int_of_string_def strip_def is_space_def digit_of_def)
  have i: "int_of_string ''90000'' = Some 90000" "int_of_string ''3000'' = Some 3000"
    by (simp_all add: int_of_string_def strip_def is_space_def digit_of_def)
  have r: "round_to_hour 90000 = 90000" "round_to_hour 3000 = 3600"
    by (simp_all add: round_to_hour_div_mod)
  have out: "round_to_hour 90000 < 0 \<or> 86400 < round_to_hour 90000"
    by (simp add: r)
  have 1: "group_files (?nox # [?co]) [] = group_files [?co] []"
    by (rule files[OF pn i(1), THEN conjunct1, rule_format, OF out])
  have inside: "0 \<le> round_to_hour 3000 \<and> round_to_hour 3000 \<le> 86400"
    by (simp add: r)
  have 2: "group_files (?co # []) []
      = group_files [] (AList.update ''data_co''
           ((case map_of [] ''data_co'' of None \<Rightarrow> [] | Some l \<Rightarrow> l) @ [(?co, round_to_hour 3000)]) [])"
    by (rule files[OF pc i(2), THEN conjunct2, rule_format, OF inside])
  have g: "group_files [?nox, ?co] [] = Inr [(''data_co'', [(?co, 3600)])]"
    unfolding 1 2 by (simp add: r)
  from keys[OF g, THEN conjunct2] obtain out where
    o: "process_data_statistics [?nox, ?co] = Inr out"
    and k: "\<forall>s \<in> set out. fst s \<in> fst ` set [(''data_co'', [(?co, 3600 :: int)])]"
    by (elim exE conjE)
  from k have "''data_nox'' \<notin> fst ` set out"
    by auto
  with o have "\<exists>out. process_data_statistics [?nox, ?co] = Inr out \<and> ''data_nox'' \<notin> fst ` set out"
    by (intro exI conjI)
  moreover have "\<bar>3000 - round_to_hour 3000\<bar> \<le> \<bar>3000 - 3600 * 0\<bar>"
    by (rule rounds[THEN conjunct2])
  ultimately show ?thesis
    using g by (intro conjI)
qed


end
